theory Spec2Isabelle
  imports Main
begin

section \<open>Data model (db.ts, service.ts)\<close>

text \<open>
  The lifecycle state of a stored proof (column \<open>state\<close> of table \<open>cashu_proofs\<close>) and
  the state of a mint quote (column \<open>state\<close> of table \<open>cashu_mint_quotes\<close>).
\<close>

datatype proof_state = inflight | ready | spent

datatype quote_state = UNPAID | PAID | ISSUED

text \<open>
  A proof as the Protocol Client (cashu-ts) hands it over. Amounts are the discrete
  denominations of the protocol, natural numbers. The optional \<open>dleq\<close> and \<open>witness\<close>
  blobs are kept in their serialised form (the text \<open>JSON.stringify\<close> produces).
\<close>

record Proof =
  p_id :: string
  p_amount :: nat
  p_secret :: string
  p_C :: string
  p_dleq :: "string option"
  p_witness :: "string option"

text \<open>Interface \<open>WalletProof\<close>: one row of \<open>cashu_proofs\<close>. Field \<open>id\<close> is the keyset id.\<close>

record WalletProof =
  mintUrl :: string
  id' :: string
  amount :: nat
  secret :: string
  C :: string
  dleqJson :: "string option"
  witnessJson :: "string option"
  state :: proof_state
  createdAt :: nat

text \<open>Interface \<open>WalletMintQuote\<close>: one row of \<open>cashu_mint_quotes\<close>.\<close>

record WalletMintQuote =
  q_mintUrl :: string
  quote :: string
  q_state :: quote_state
  request :: string
  q_amount :: int
  q_unit :: string
  expiry :: nat
  pubkey :: "string option"

text \<open>
  The persisted ledger: both tables as lists of rows, in insertion order. The primary key
  of \<open>cashu_proofs\<close> is \<open>(mintUrl, secret)\<close>, that of \<open>cashu_mint_quotes\<close> is
  \<open>(mintUrl, quote)\<close>.
\<close>

record WalletDb =
  cashu_proofs :: "WalletProof list"
  cashu_mint_quotes :: "WalletMintQuote list"

definition emptyDb :: WalletDb where
  "emptyDb = \<lparr>cashu_proofs = [], cashu_mint_quotes = []\<rparr>"

text \<open>
  The primary keys of the stored proofs; the table keeps them distinct.
\<close>

definition proof_keys :: "WalletDb \<Rightarrow> (string \<times> string) list" where
  "proof_keys db = map (\<lambda>r. (mintUrl r, secret r)) (cashu_proofs db)"

section \<open>JavaScript numbers\<close>

text \<open>
  Amounts are JavaScript numbers, IEEE 754 doubles, holding non-negative integers. Every
  natural number up to \<open>2 ^ 53\<close> is a double; above, a double keeps 53 significant
  bits. \<open>bitlen n\<close> is the number of binary digits of \<open>n\<close>, and \<open>round53 n\<close> is the
  double nearest to \<open>n\<close>, a tie going to the even significand (the rounding of every
  arithmetic operation on doubles). Overflow to \<open>Infinity\<close> (from \<open>2 ^ 1024\<close>) is left
  out.
\<close>

fun bitlen :: "nat \<Rightarrow> nat" where
  "bitlen n = (if n = 0 then 0 else Suc (bitlen (n div 2)))"

declare bitlen.simps [simp del]

definition round53 :: "nat \<Rightarrow> nat" where
  "round53 n =
     (if n \<le> 2 ^ 53 then n
      else (let e = bitlen n - 53; q = n div 2 ^ e; r = n mod 2 ^ e; h = 2 ^ e div 2
            in if r < h \<or> (r = h \<and> even q) then q * 2 ^ e else (q + 1) * 2 ^ e))"

text \<open>\<open>a + b\<close> on two such numbers: the exact sum, rounded.\<close>

definition js_add :: "nat \<Rightarrow> nat \<Rightarrow> nat" where
  "js_add a b = round53 (a + b)"

text \<open>
  \<open>a + b\<close> on integer-valued numbers of either sign (the fields of a melt quote are
  whatever the mint sends): rounding is symmetric in the sign.
\<close>

definition js_add_int :: "int \<Rightarrow> int \<Rightarrow> int" where
  "js_add_int a b =
     (if 0 \<le> a + b then int (round53 (nat (a + b))) else - int (round53 (nat (- (a + b)))))"

section \<open>WalletDb operations (db.ts)\<close>

text \<open>
  \<open>getProofs(mintUrl, state?)\<close>:
  \<open>SELECT * FROM cashu_proofs WHERE mintUrl = ? [AND state = ?]\<close>.
\<close>

definition getProofs :: "WalletDb \<Rightarrow> string \<Rightarrow> proof_state option \<Rightarrow> WalletProof list" where
  "getProofs db m st =
     filter (\<lambda>r. mintUrl r = m \<and> (case st of None \<Rightarrow> True | Some s \<Rightarrow> state r = s))
       (cashu_proofs db)"

text \<open>
  \<open>INSERT OR REPLACE INTO cashu_proofs\<close>: a row with the same primary key is deleted,
  then the new row is inserted.
\<close>

definition insertOrReplaceProof :: "WalletProof \<Rightarrow> WalletProof list \<Rightarrow> WalletProof list" where
  "insertOrReplaceProof r rows =
     filter (\<lambda>x. \<not> (mintUrl x = mintUrl r \<and> secret x = secret r)) rows @ [r]"

definition proofRow :: "Proof \<Rightarrow> string \<Rightarrow> proof_state \<Rightarrow> nat \<Rightarrow> WalletProof" where
  "proofRow p m st t =
     \<lparr>mintUrl = m, id' = p_id p, amount = p_amount p, secret = p_secret p, C = p_C p,
      dleqJson = p_dleq p, witnessJson = p_witness p, state = st, createdAt = t\<rparr>"

text \<open>The loop of \<open>saveProofs\<close> over the batch, on the rows of the table.\<close>

primrec saveRows :: "Proof list \<Rightarrow> string \<Rightarrow> proof_state \<Rightarrow> nat \<Rightarrow> WalletProof list \<Rightarrow> WalletProof list" where
  "saveRows [] m st t rows = rows"
| "saveRows (p # ps) m st t rows = saveRows ps m st t (insertOrReplaceProof (proofRow p m st t) rows)"

text \<open>
  \<open>saveProofs(proofs, mintUrl, state)\<close>; \<open>t\<close> is the value of \<open>getUnixTimeSeconds()\<close> at
  the call. (The source's type restricts \<open>state\<close> to \<open>inflight\<close> or \<open>ready\<close>.)
\<close>

definition saveProofs :: "WalletDb \<Rightarrow> Proof list \<Rightarrow> string \<Rightarrow> proof_state \<Rightarrow> nat \<Rightarrow> WalletDb" where
  "saveProofs db proofs m st t = db\<lparr>cashu_proofs := saveRows proofs m st t (cashu_proofs db)\<rparr>"

text \<open>\<open>updateProofState(secret, state)\<close>: \<open>UPDATE cashu_proofs SET state = ? WHERE secret = ?\<close>.\<close>

definition updateProofState :: "WalletDb \<Rightarrow> string \<Rightarrow> proof_state \<Rightarrow> WalletDb" where
  "updateProofState db s st =
     db\<lparr>cashu_proofs := map (\<lambda>r. if secret r = s then r\<lparr>state := st\<rparr> else r) (cashu_proofs db)\<rparr>"

text \<open>\<open>deleteProof(secret)\<close>: \<open>DELETE FROM cashu_proofs WHERE secret = ?\<close>.\<close>

definition deleteProof :: "WalletDb \<Rightarrow> string \<Rightarrow> WalletDb" where
  "deleteProof db s = db\<lparr>cashu_proofs := filter (\<lambda>r. secret r \<noteq> s) (cashu_proofs db)\<rparr>"

text \<open>\<open>getMintQuote(mintUrl, quote)\<close>: the first matching row, if any.\<close>

definition getMintQuote :: "WalletDb \<Rightarrow> string \<Rightarrow> string \<Rightarrow> WalletMintQuote option" where
  "getMintQuote db m q = find (\<lambda>r. q_mintUrl r = m \<and> quote r = q) (cashu_mint_quotes db)"

text \<open>\<open>saveMintQuote(quote)\<close>: \<open>INSERT OR REPLACE INTO cashu_mint_quotes\<close>.\<close>

definition saveMintQuote :: "WalletDb \<Rightarrow> WalletMintQuote \<Rightarrow> WalletDb" where
  "saveMintQuote db r =
     db\<lparr>cashu_mint_quotes :=
          filter (\<lambda>x. \<not> (q_mintUrl x = q_mintUrl r \<and> quote x = quote r)) (cashu_mint_quotes db) @ [r]\<rparr>"

text \<open>
  \<open>updateMintQuoteState(mintUrl, quote, state)\<close>:
  \<open>UPDATE cashu_mint_quotes SET state = ? WHERE mintUrl = ? AND quote = ?\<close>.
\<close>

definition updateMintQuoteState :: "WalletDb \<Rightarrow> string \<Rightarrow> string \<Rightarrow> quote_state \<Rightarrow> WalletDb" where
  "updateMintQuoteState db m q st =
     db\<lparr>cashu_mint_quotes :=
          map (\<lambda>r. if q_mintUrl r = m \<and> quote r = q then r\<lparr>q_state := st\<rparr> else r)
            (cashu_mint_quotes db)\<rparr>"

text \<open>
  \<open>getBalance(mintUrl?)\<close>: \<open>SELECT SUM(amount) FROM cashu_proofs WHERE state = 'ready'\<close>,
  restricted to the mint when the argument is truthy (present and not the empty string);
  \<open>result?.total || 0\<close> turns the \<open>NULL\<close> of an empty selection into 0. SQLite adds
  the \<open>INTEGER\<close> column exactly (in 64-bit integers, which totals are taken to fit); the
  total reaches JavaScript as a number, that is, rounded to a double.
\<close>

definition getBalance_db :: "WalletDb \<Rightarrow> string option \<Rightarrow> nat" where
  "getBalance_db db mo =
     round53 (sum_list (map amount
       (filter (\<lambda>r. state r = ready \<and>
                  (case mo of None \<Rightarrow> True | Some m \<Rightarrow> (if m = [] then True else mintUrl r = m)))
          (cashu_proofs db))))"

section \<open>The world outside the process\<close>

text \<open>
  Errors of the public operations, named as in the error taxonomy: the exceptions the
  service throws itself (invalid amount, missing parameter, empty result, insufficient
  balance) and \<open>ProtocolError\<close> for a rejection or failure of the Protocol Client.
\<close>

datatype error = InvalidAmount | MissingParameter | ProtocolError | EmptyResult | InsufficientBalance

datatype melt_state = MELT_UNPAID | MELT_PENDING | MELT_PAID

datatype check_state = CS_UNSPENT | CS_PENDING | CS_SPENT

record MintQuoteResponse =
  mq_quote :: string
  mq_request :: string
  mq_expiry :: nat

record MeltQuoteResponse =
  melt_quote :: string
  melt_amount :: int
  fee_reserve :: int

record Token =
  t_mint :: string
  t_proofs :: "Proof list"

text \<open>
  What one operation observes of the outside: the answers of the Protocol Client
  (\<open>CashuWallet\<close> of cashu-ts) to the calls the operation makes, as functions of the
  arguments passed (\<open>None\<close>: the call throws, or the response carries an \<open>error\<close>
  field), whether \<open>loadMint\<close> succeeds should the connection be set up, the clock
  (\<open>unixTime k\<close> is \<open>getUnixTimeSeconds()\<close> at its k-th call within the operation), and
  the token encoder \<open>getEncodedTokenV4\<close>.
\<close>

record world =
  loadMint :: bool
  createMintQuote_c :: "int \<Rightarrow> MintQuoteResponse option"
  checkMintQuote_c :: "string \<Rightarrow> (quote_state \<times> int option) option"
  mintProofs_c :: "int \<Rightarrow> string \<Rightarrow> Proof list option"
  send_c :: "int \<Rightarrow> WalletProof list \<Rightarrow> (Proof list \<times> Proof list) option"
  receive_c :: "string \<Rightarrow> Proof list option"
  createMeltQuote_c :: "string \<Rightarrow> MeltQuoteResponse option"
  meltProofs_c :: "MeltQuoteResponse \<Rightarrow> Proof list \<Rightarrow> Proof list option"
  checkMeltQuote_c :: "string \<Rightarrow> (melt_state \<times> string option) option"
  checkProofsStates_c :: "WalletProof list \<Rightarrow> check_state option list option"
  unixTime :: "nat \<Rightarrow> nat"
  getEncodedTokenV4 :: "Token \<Rightarrow> string"

section \<open>QuotePoolManager (service.ts)\<close>

record QuotePoolItem =
  quoteId :: string
  item_amount :: int
  item_expiry :: nat

text \<open>
  The tracked quotes are a JavaScript \<open>Map\<close> keyed by quote id, kept here as the list
  of its values in insertion order. \<open>checkInterval\<close> tells whether the interval timer
  is set.
\<close>

record QuotePoolManager =
  quotes :: "QuotePoolItem list"
  isRunning :: bool
  checkInterval :: bool
  checkIntervalMs :: nat
  maxConcurrentChecks :: nat

text \<open>The constructor as the service calls it, with an empty configuration.\<close>

definition newQuotePoolManager :: QuotePoolManager where
  "newQuotePoolManager =
     \<lparr>quotes = [], isRunning = False, checkInterval = False,
      checkIntervalMs = 5000, maxConcurrentChecks = 5\<rparr>"

text \<open>\<open>Map.set\<close>: an existing key keeps its place and takes the new value.\<close>

primrec map_set :: "QuotePoolItem \<Rightarrow> QuotePoolItem list \<Rightarrow> QuotePoolItem list" where
  "map_set x [] = [x]"
| "map_set x (y # ys) = (if quoteId y = quoteId x then x # ys else y # map_set x ys)"

definition map_delete :: "string \<Rightarrow> QuotePoolItem list \<Rightarrow> QuotePoolItem list" where
  "map_delete k xs = filter (\<lambda>y. quoteId y \<noteq> k) xs"

definition start :: "QuotePoolManager \<Rightarrow> QuotePoolManager" where
  "start p = (if isRunning p then p else p\<lparr>isRunning := True, checkInterval := True\<rparr>)"

definition stop :: "QuotePoolManager \<Rightarrow> QuotePoolManager" where
  "stop p =
     (if \<not> isRunning p then p
      else (let p1 = p\<lparr>isRunning := False\<rparr>
            in if checkInterval p1 then p1\<lparr>checkInterval := False\<rparr> else p1))"

definition addQuote :: "QuotePoolManager \<Rightarrow> string \<Rightarrow> int \<Rightarrow> nat \<Rightarrow> QuotePoolManager" where
  "addQuote p qid a e =
     (let p1 = p\<lparr>quotes := map_set \<lparr>quoteId = qid, item_amount = a, item_expiry = e\<rparr> (quotes p)\<rparr>
      in if \<not> isRunning p1 then start p1 else p1)"

definition removeQuote :: "QuotePoolManager \<Rightarrow> string \<Rightarrow> QuotePoolManager" where
  "removeQuote p qid =
     (let p1 = p\<lparr>quotes := map_delete qid (quotes p)\<rparr>
      in if quotes p1 = [] then stop p1 else p1)"

text \<open>\<open>cleanupExpiredQuotes\<close>; \<open>now\<close> is \<open>Math.floor(Date.now() / 1000)\<close>.\<close>

definition cleanupExpiredQuotes :: "QuotePoolManager \<Rightarrow> nat \<Rightarrow> QuotePoolManager" where
  "cleanupExpiredQuotes p now =
     (let p1 = p\<lparr>quotes := filter (\<lambda>q. \<not> now > item_expiry q) (quotes p)\<rparr>
      in if quotes p1 = [] then stop p1 else p1)"

definition destroy :: "QuotePoolManager \<Rightarrow> QuotePoolManager" where
  "destroy p = (stop p)\<lparr>quotes := []\<rparr>"

section \<open>CashuWalletService (service.ts)\<close>

text \<open>
  The service object. \<open>cashuWallet\<close> tells whether the fields \<open>cashuWallet\<close> and
  \<open>cashuMint\<close> are set (they are assigned together).
\<close>

record service =
  svc_mintUrl :: string
  svc_unit :: string
  walletDb :: WalletDb
  cashuWallet :: bool
  quotePoolManager :: QuotePoolManager

record BalanceResult =
  balance :: nat
  pendingBalance :: nat
  total :: nat
  pendingProofsCount :: nat

record MintQuoteResult =
  mqr_quoteId :: string
  lightningInvoice :: string
  mqr_amount :: int
  mqr_expiry :: nat

record MintQuoteStatusResult =
  mqs_quoteId :: string
  mqs_state :: quote_state
  mqs_amount :: int
  isPaid :: bool
  isIssued :: bool
  canMint :: bool

record MintProofsResult =
  mp_proofs :: "Proof list"
  mp_totalAmount :: nat
  mp_proofCount :: nat
  mp_proofAmounts :: "nat list"
  mp_quoteId :: string

record SendEcashResult =
  sentAmount :: nat
  keepAmount :: nat
  sentProofs :: "Proof list"
  keepProofs :: "Proof list"
  cashuToken :: string
  token :: Token

record ReceiveEcashResult =
  receivedProofs :: "Proof list"
  rc_totalAmount :: nat
  rc_proofCount :: nat
  rc_proofAmounts :: "nat list"

record CleanPendingProofsResult =
  cleanedCount :: nat
  cleanedAmount :: nat
  totalChecked :: nat
  remainingPending :: nat

record PayInvoiceResult =
  meltQuoteId :: string
  amountPaid :: int
  feeReserve :: int
  pi_totalAmount :: int
  paymentPreimage :: "string option"
  remainingBalance :: nat
  changeProofs :: "Proof list"
  pi_sentProofs :: "Proof list"
  keptProofs :: "Proof list"

text \<open>
  The constructor: \<open>config.mintUrl || process.env.MINT_URL || default\<close>, the ledger
  found in the database file (empty for a new file), no connection yet, an idle pool.
\<close>

definition newService :: "string \<Rightarrow> string \<Rightarrow> string \<Rightarrow> WalletDb \<Rightarrow> service" where
  "newService cfgMintUrl envMintUrl cfgUnit stored =
     \<lparr>svc_mintUrl = (if cfgMintUrl \<noteq> [] then cfgMintUrl
                     else if envMintUrl \<noteq> [] then envMintUrl
                     else ''https://testnut.cashu.space''),
      svc_unit = (if cfgUnit \<noteq> [] then cfgUnit else ''sat''),
      walletDb = stored,
      cashuWallet = False,
      quotePoolManager = newQuotePoolManager\<rparr>"

text \<open>
  \<open>ensureWalletInitialized\<close>: the client objects are assigned before \<open>loadMint\<close> is
  awaited, so they stay set when \<open>loadMint\<close> fails and the exception propagates.
\<close>

definition ensureWalletInitialized :: "service \<Rightarrow> world \<Rightarrow> (error + unit) \<times> service" where
  "ensureWalletInitialized s w =
     (if \<not> cashuWallet s
      then (if loadMint w then (Inr (), s\<lparr>cashuWallet := True\<rparr>)
            else (Inl ProtocolError, s\<lparr>cashuWallet := True\<rparr>))
      else (Inr (), s))"

text \<open>
  \<open>sumProofs\<close>: \<open>proofs.reduce((acc, p) => acc + p.amount, 0)\<close>, each \<open>+\<close> an addition
  of doubles.
\<close>

definition sumProofs :: "Proof list \<Rightarrow> nat" where
  "sumProofs proofs = foldl (\<lambda>acc p. js_add acc (p_amount p)) 0 proofs"

text \<open>\<open>sumProofs\<close> applied to rows of the ledger (\<open>WalletProof[]\<close> passed as \<open>Proof[]\<close>).\<close>

definition sumProofs_w :: "WalletProof list \<Rightarrow> nat" where
  "sumProofs_w proofs = foldl (\<lambda>acc p. js_add acc (amount p)) 0 proofs"

text \<open>
  The loop of \<open>cleanPendingProofs\<close> over the indices of \<open>proofStates\<close>: entry \<open>i\<close> is
  matched with \<open>pendingProofs[i]\<close>; an index past the end of \<open>pendingProofs\<close> gives
  \<open>undefined\<close> and is skipped. The accumulator is
  \<open>(cleanedCount, cleanedAmount, database)\<close>.
\<close>

fun cleanLoop :: "WalletProof list \<Rightarrow> check_state option list \<Rightarrow> nat \<times> nat \<times> WalletDb \<Rightarrow> nat \<times> nat \<times> WalletDb" where
  "cleanLoop ps [] acc = acc"
| "cleanLoop [] (st # sts) acc = cleanLoop [] sts acc"
| "cleanLoop (p # ps) (st # sts) (n, a, db) =
     cleanLoop ps sts
       (if st = Some CS_SPENT then (n + 1, js_add a (amount p), updateProofState db (secret p) spent)
        else (n, a, db))"

definition cleanPendingProofs :: "service \<Rightarrow> world \<Rightarrow> (error + CleanPendingProofsResult) \<times> service" where
  "cleanPendingProofs s w =
     (case ensureWalletInitialized s w of
        (Inl e, s1) \<Rightarrow> (Inl e, s1)
      | (Inr u, s1) \<Rightarrow>
          (let pendingProofs = getProofs (walletDb s1) (svc_mintUrl s1) (Some inflight)
           in if pendingProofs = []
              then (Inr \<lparr>cleanedCount = 0, cleanedAmount = 0, totalChecked = 0, remainingPending = 0\<rparr>, s1)
              else (case checkProofsStates_c w pendingProofs of
                      None \<Rightarrow>
                        (Inr \<lparr>cleanedCount = 0, cleanedAmount = 0,
                              totalChecked = length pendingProofs,
                              remainingPending = length pendingProofs - 0\<rparr>, s1)
                    | Some proofStates \<Rightarrow>
                        (case cleanLoop pendingProofs proofStates (0, 0, walletDb s1) of
                           (n, a, db) \<Rightarrow>
                             (Inr \<lparr>cleanedCount = n, cleanedAmount = a,
                                   totalChecked = length pendingProofs,
                                   remainingPending = length pendingProofs - n\<rparr>,
                              s1\<lparr>walletDb := db\<rparr>)))))"

definition getBalance :: "service \<Rightarrow> world \<Rightarrow> (error + BalanceResult) \<times> service" where
  "getBalance s w =
     (case ensureWalletInitialized s w of
        (Inl e, s1) \<Rightarrow> (Inl e, s1)
      | (Inr u, s1) \<Rightarrow>
          (let pendingProofs = getProofs (walletDb s1) (svc_mintUrl s1) (Some inflight);
               bal = getBalance_db (walletDb s1) (Some (svc_mintUrl s1));
               pending = sumProofs_w pendingProofs;
               res = \<lparr>balance = bal, pendingBalance = pending, total = js_add bal pending,
                      pendingProofsCount = length pendingProofs\<rparr>
           in if length pendingProofs > 0
              then (case cleanPendingProofs s1 w of
                      (Inl e, s2) \<Rightarrow> (Inl e, s2)
                    | (Inr c, s2) \<Rightarrow> (Inr res, s2))
              else (Inr res, s1)))"

definition createMintQuote :: "service \<Rightarrow> int \<Rightarrow> world \<Rightarrow> (error + MintQuoteResult) \<times> service" where
  "createMintQuote s a w =
     (case ensureWalletInitialized s w of
        (Inl e, s1) \<Rightarrow> (Inl e, s1)
      | (Inr u, s1) \<Rightarrow>
          if a = 0 \<or> a \<le> 0 then (Inl InvalidAmount, s1)
          else (case createMintQuote_c w a of
                  None \<Rightarrow> (Inl ProtocolError, s1)
                | Some q \<Rightarrow>
                    (Inr \<lparr>mqr_quoteId = mq_quote q, lightningInvoice = mq_request q,
                          mqr_amount = a, mqr_expiry = mq_expiry q\<rparr>,
                     s1\<lparr>walletDb :=
                           saveMintQuote (walletDb s1)
                             \<lparr>q_mintUrl = svc_mintUrl s1, quote = mq_quote q, q_state = UNPAID,
                              request = mq_request q, q_amount = a, q_unit = svc_unit s1,
                              expiry = mq_expiry q, pubkey = None\<rparr>,
                        quotePoolManager :=
                           addQuote (quotePoolManager s1) (mq_quote q) a (mq_expiry q)\<rparr>)))"

definition checkMintQuote :: "service \<Rightarrow> string \<Rightarrow> world \<Rightarrow> (error + MintQuoteStatusResult) \<times> service" where
  "checkMintQuote s qid w =
     (case ensureWalletInitialized s w of
        (Inl e, s1) \<Rightarrow> (Inl e, s1)
      | (Inr u, s1) \<Rightarrow>
          if qid = [] then (Inl MissingParameter, s1)
          else (case checkMintQuote_c w qid of
                  None \<Rightarrow> (Inl ProtocolError, s1)
                | Some (st, amt) \<Rightarrow>
                    (let paid = (st = PAID); issued = (st = ISSUED)
                     in (Inr \<lparr>mqs_quoteId = qid, mqs_state = st,
                              mqs_amount = (case amt of None \<Rightarrow> 0 | Some a \<Rightarrow> a),
                              isPaid = paid, isIssued = issued,
                              canMint = (paid \<and> \<not> issued)\<rparr>,
                         s1\<lparr>walletDb := updateMintQuoteState (walletDb s1) (svc_mintUrl s1) qid st\<rparr>))))"

definition mintProofs :: "service \<Rightarrow> string \<Rightarrow> int \<Rightarrow> world \<Rightarrow> (error + MintProofsResult) \<times> service" where
  "mintProofs s qid a w =
     (case ensureWalletInitialized s w of
        (Inl e, s1) \<Rightarrow> (Inl e, s1)
      | (Inr u, s1) \<Rightarrow>
          if qid = [] \<or> a = 0 then (Inl MissingParameter, s1)
          else (case mintProofs_c w a qid of
                  None \<Rightarrow> (Inl ProtocolError, s1)
                | Some proofs \<Rightarrow>
                    if proofs = [] then (Inl EmptyResult, s1)
                    else (Inr \<lparr>mp_proofs = proofs, mp_totalAmount = sumProofs proofs,
                               mp_proofCount = length proofs,
                               mp_proofAmounts = map p_amount proofs, mp_quoteId = qid\<rparr>,
                          s1\<lparr>walletDb :=
                                updateMintQuoteState
                                  (saveProofs (walletDb s1) proofs (svc_mintUrl s1) ready (unixTime w 0))
                                  (svc_mintUrl s1) qid ISSUED\<rparr>)))"

text \<open>The loop \<open>for (const proof of availableProofs) updateProofState(proof.secret, "spent")\<close>.\<close>

primrec markSpent :: "WalletProof list \<Rightarrow> WalletDb \<Rightarrow> WalletDb" where
  "markSpent [] db = db"
| "markSpent (p # ps) db = markSpent ps (updateProofState db (secret p) spent)"

text \<open>
  \<open>WalletDb.transaction(fn)\<close> runs the callback inside one SQLite transaction; the
  callbacks of the service throw nowhere, so the transaction commits what they wrote.
\<close>

definition transaction :: "(WalletDb \<Rightarrow> WalletDb) \<Rightarrow> WalletDb \<Rightarrow> WalletDb" where
  "transaction fn db = fn db"

definition sendEcash :: "service \<Rightarrow> int \<Rightarrow> world \<Rightarrow> (error + SendEcashResult) \<times> service" where
  "sendEcash s a w =
     (case ensureWalletInitialized s w of
        (Inl e, s1) \<Rightarrow> (Inl e, s1)
      | (Inr u, s1) \<Rightarrow>
          if a = 0 \<or> a \<le> 0 then (Inl InvalidAmount, s1)
          else (let availableProofs = getProofs (walletDb s1) (svc_mintUrl s1) (Some ready);
                    totalBalance = sumProofs_w availableProofs
                in if int totalBalance < a then (Inl InsufficientBalance, s1)
                   else (case send_c w a availableProofs of
                           None \<Rightarrow> (Inl ProtocolError, s1)
                         | Some (keep, send) \<Rightarrow>
                             (let tok = \<lparr>t_mint = svc_mintUrl s1, t_proofs = send\<rparr>
                              in (Inr \<lparr>sentAmount = sumProofs send, keepAmount = sumProofs keep,
                                       sentProofs = send, keepProofs = keep,
                                       cashuToken = getEncodedTokenV4 w tok, token = tok\<rparr>,
                                  s1\<lparr>walletDb :=
                                        transaction
                                          (\<lambda>db. saveProofs
                                                  (saveProofs (markSpent availableProofs db)
                                                     keep (svc_mintUrl s1) ready (unixTime w 0))
                                                  send (svc_mintUrl s1) inflight (unixTime w 1))
                                          (walletDb s1)\<rparr>)))))"

definition receiveEcash :: "service \<Rightarrow> string \<Rightarrow> world \<Rightarrow> (error + ReceiveEcashResult) \<times> service" where
  "receiveEcash s tokenString w =
     (case ensureWalletInitialized s w of
        (Inl e, s1) \<Rightarrow> (Inl e, s1)
      | (Inr u, s1) \<Rightarrow>
          if tokenString = [] then (Inl MissingParameter, s1)
          else (case receive_c w tokenString of
                  None \<Rightarrow> (Inl ProtocolError, s1)
                | Some proofs \<Rightarrow>
                    if proofs = [] then (Inl EmptyResult, s1)
                    else (Inr \<lparr>receivedProofs = proofs, rc_totalAmount = sumProofs proofs,
                               rc_proofCount = length proofs,
                               rc_proofAmounts = map p_amount proofs\<rparr>,
                          s1\<lparr>walletDb :=
                                saveProofs (walletDb s1) proofs (svc_mintUrl s1) ready (unixTime w 0)\<rparr>)))"

text \<open>
  \<open>payInvoice\<close>. The ledger is written after the melt; the status check that follows
  (\<open>checkMeltQuote\<close>, after the fixed delay) can still throw, then with the ledger
  already written.
\<close>

definition payInvoice :: "service \<Rightarrow> string \<Rightarrow> world \<Rightarrow> (error + PayInvoiceResult) \<times> service" where
  "payInvoice s invoice w =
     (case ensureWalletInitialized s w of
        (Inl e, s1) \<Rightarrow> (Inl e, s1)
      | (Inr u, s1) \<Rightarrow>
          if invoice = [] then (Inl MissingParameter, s1)
          else (case createMeltQuote_c w invoice of
                  None \<Rightarrow> (Inl ProtocolError, s1)
                | Some meltQuote \<Rightarrow>
                    (let amountToMelt = js_add_int (melt_amount meltQuote) (fee_reserve meltQuote);
                         availableProofs = getProofs (walletDb s1) (svc_mintUrl s1) (Some ready);
                         totalBalance = sumProofs_w availableProofs
                     in if int totalBalance < amountToMelt then (Inl InsufficientBalance, s1)
                        else (case send_c w amountToMelt availableProofs of
                                None \<Rightarrow> (Inl ProtocolError, s1)
                              | Some (keep, send) \<Rightarrow>
                                  (case meltProofs_c w meltQuote send of
                                     None \<Rightarrow> (Inl ProtocolError, s1)
                                   | Some change \<Rightarrow>
                                       (let db2 =
                                              transaction
                                                (\<lambda>db.
                                                   (let d = saveProofs
                                                              (saveProofs (markSpent availableProofs db)
                                                                 keep (svc_mintUrl s1) ready (unixTime w 0))
                                                              send (svc_mintUrl s1) inflight (unixTime w 1)
                                                    in if length change > 0
                                                       then saveProofs d change (svc_mintUrl s1) ready (unixTime w 2)
                                                       else d))
                                                (walletDb s1);
                                            s2 = s1\<lparr>walletDb := db2\<rparr>
                                        in (case checkMeltQuote_c w (melt_quote meltQuote) of
                                              None \<Rightarrow> (Inl ProtocolError, s2)
                                            | Some (mst, preimage) \<Rightarrow>
                                                (Inr \<lparr>meltQuoteId = melt_quote meltQuote,
                                                      amountPaid = melt_amount meltQuote,
                                                      feeReserve = fee_reserve meltQuote,
                                                      pi_totalAmount = amountToMelt,
                                                      paymentPreimage =
                                                        (if mst = MELT_PAID
                                                         then (case preimage of
                                                                 None \<Rightarrow> None
                                                               | Some x \<Rightarrow> if x = [] then None else Some x)
                                                         else None),
                                                      remainingBalance =
                                                        getBalance_db db2 (Some (svc_mintUrl s1)),
                                                      changeProofs = change,
                                                      pi_sentProofs = send,
                                                      keptProofs = keep\<rparr>,
                                                 s2))))))))"


section \<open>Sequences of wallet operations and the lifecycle order\<close>

text \<open>The lifecycle order \<open>ready \<rightarrow> inflight \<rightarrow> spent\<close> (and \<open>ready \<rightarrow> spent\<close>).\<close>

fun state_rank :: "proof_state \<Rightarrow> nat" where
  "state_rank ready = 0"
| "state_rank inflight = 1"
| "state_rank spent = 2"

definition state_le :: "proof_state \<Rightarrow> proof_state \<Rightarrow> bool" where
  "state_le a b = (state_rank a \<le> state_rank b)"

text \<open>The stored state of the proof with primary key \<open>(mint, secret)\<close>, if there is one.\<close>

definition rowState :: "WalletProof list \<Rightarrow> string \<Rightarrow> string \<Rightarrow> proof_state option" where
  "rowState rows m sec = map_option state (find (\<lambda>r. mintUrl r = m \<and> secret r = sec) rows)"

definition proofStateOf :: "WalletDb \<Rightarrow> string \<Rightarrow> string \<Rightarrow> proof_state option" where
  "proofStateOf db m sec = rowState (cashu_proofs db) m sec"

datatype wallet_op =
    MintProofs string int
  | SendEcash int
  | ReceiveEcash string
  | PayInvoice string
  | CleanPendingProofs

text \<open>One public operation, run in the world it meets; only the new service state is kept.\<close>

fun apply_op :: "service \<Rightarrow> wallet_op \<times> world \<Rightarrow> service" where
  "apply_op s (MintProofs qid a, w) = snd (mintProofs s qid a w)"
| "apply_op s (SendEcash a, w) = snd (sendEcash s a w)"
| "apply_op s (ReceiveEcash tok, w) = snd (receiveEcash s tok w)"
| "apply_op s (PayInvoice invoice, w) = snd (payInvoice s invoice w)"
| "apply_op s (CleanPendingProofs, w) = snd (cleanPendingProofs s w)"

definition run_ops :: "service \<Rightarrow> (wallet_op \<times> world) list \<Rightarrow> service" where
  "run_ops s ops = foldl apply_op s ops"

text \<open>
  The proofs the Protocol Client returns to an operation, each with the state under which
  the operation persists it.
\<close>

fun returned_proofs :: "service \<Rightarrow> wallet_op \<Rightarrow> world \<Rightarrow> (Proof \<times> proof_state) list" where
  "returned_proofs s (MintProofs qid a) w =
     (case mintProofs_c w a qid of None \<Rightarrow> [] | Some ps \<Rightarrow> map (\<lambda>p. (p, ready)) ps)"
| "returned_proofs s (SendEcash a) w =
     (case send_c w a (getProofs (walletDb s) (svc_mintUrl s) (Some ready)) of
        None \<Rightarrow> []
      | Some (keep, send) \<Rightarrow> map (\<lambda>p. (p, ready)) keep @ map (\<lambda>p. (p, inflight)) send)"
| "returned_proofs s (ReceiveEcash tok) w =
     (case receive_c w tok of None \<Rightarrow> [] | Some ps \<Rightarrow> map (\<lambda>p. (p, ready)) ps)"
| "returned_proofs s (PayInvoice invoice) w =
     (case createMeltQuote_c w invoice of
        None \<Rightarrow> []
      | Some mq \<Rightarrow>
          (case send_c w (js_add_int (melt_amount mq) (fee_reserve mq))
                  (getProofs (walletDb s) (svc_mintUrl s) (Some ready)) of
             None \<Rightarrow> []
           | Some (keep, send) \<Rightarrow>
               (case meltProofs_c w mq send of
                  None \<Rightarrow> []
                | Some change \<Rightarrow>
                    map (\<lambda>p. (p, ready)) keep @ map (\<lambda>p. (p, inflight)) send
                      @ map (\<lambda>p. (p, ready)) change)))"
| "returned_proofs s CleanPendingProofs w = []"

text \<open>
  No returned proof reuses the secret of a proof stored for the configured mint in a later
  lifecycle state than the one it is persisted with.
\<close>

definition no_regression :: "service \<Rightarrow> wallet_op \<Rightarrow> world \<Rightarrow> bool" where
  "no_regression s op w =
     list_all (\<lambda>(p, st). case proofStateOf (walletDb s) (svc_mintUrl s) (p_secret p) of
                           None \<Rightarrow> True
                         | Some old \<Rightarrow> state_le old st)
       (returned_proofs s op w)"

fun ops_ok :: "service \<Rightarrow> (wallet_op \<times> world) list \<Rightarrow> bool" where
  "ops_ok s [] = True"
| "ops_ok s (x # xs) = (no_regression s (fst x) (snd x) \<and> ops_ok (apply_op s x) xs)"

section \<open>The contract of the Protocol Client's split\<close>


section \<open>The monitoring engine as a transition system\<close>

text \<open>
  A call of \<open>checkAndMintQuote\<close> in flight: suspended at
  \<open>await walletService.checkMintQuote\<close> or at \<open>await walletService.mintProofs\<close>.
\<close>

datatype task = AwaitCheck QuotePoolItem | AwaitMint QuotePoolItem

text \<open>
  What happens next: the interval timer fires (at the given time), or the awaited call of
  the task at the given position returns, in the world it met.
\<close>

datatype event = TimerFires nat | CheckReturns nat world | MintReturns nat world

text \<open>What is observed: \<open>mintProofs\<close> called for a quote id, and returned successfully.\<close>

datatype action = MintCall string | MintDone string

record engine =
  svc :: service
  tasks :: "task list"

definition drop_task :: "nat \<Rightarrow> task list \<Rightarrow> task list" where
  "drop_task i ts = take i ts @ drop (Suc i) ts"

definition poolRemove :: "service \<Rightarrow> string \<Rightarrow> service" where
  "poolRemove s qid = s\<lparr>quotePoolManager := removeQuote (quotePoolManager s) qid\<rparr>"

text \<open>\<open>checkQuotes\<close> up to its \<open>await\<close>: purge, take the prefix, start one task per quote.\<close>

definition checkQuotes :: "engine \<Rightarrow> nat \<Rightarrow> engine" where
  "checkQuotes e now =
     (let p = cleanupExpiredQuotes (quotePoolManager (svc e)) now;
          quotesToCheck = take (maxConcurrentChecks p) (quotes p)
      in e\<lparr>svc := (svc e)\<lparr>quotePoolManager := p\<rparr>,
           tasks := tasks e @ map AwaitCheck quotesToCheck\<rparr>)"

text \<open>
  \<open>checkAndMintQuote\<close> resumed after \<open>checkMintQuote\<close>, and after \<open>mintProofs\<close>. An
  exception of either call is caught and ends the task with the quote still tracked.
\<close>

definition afterCheck :: "engine \<Rightarrow> nat \<Rightarrow> QuotePoolItem \<Rightarrow> world \<Rightarrow> engine \<times> action list" where
  "afterCheck e i q w =
     (case checkMintQuote (svc e) (quoteId q) w of
        (Inl err, s1) \<Rightarrow> (e\<lparr>svc := s1, tasks := drop_task i (tasks e)\<rparr>, [])
      | (Inr status, s1) \<Rightarrow>
          if isPaid status \<and> \<not> isIssued status
          then (e\<lparr>svc := s1, tasks := (tasks e)[i := AwaitMint q]\<rparr>, [MintCall (quoteId q)])
          else if isIssued status
          then (e\<lparr>svc := poolRemove s1 (quoteId q), tasks := drop_task i (tasks e)\<rparr>, [])
          else (e\<lparr>svc := s1, tasks := drop_task i (tasks e)\<rparr>, []))"

definition afterMint :: "engine \<Rightarrow> nat \<Rightarrow> QuotePoolItem \<Rightarrow> world \<Rightarrow> engine \<times> action list" where
  "afterMint e i q w =
     (case mintProofs (svc e) (quoteId q) (item_amount q) w of
        (Inl err, s1) \<Rightarrow> (e\<lparr>svc := s1, tasks := drop_task i (tasks e)\<rparr>, [])
      | (Inr r, s1) \<Rightarrow>
          (e\<lparr>svc := poolRemove s1 (quoteId q), tasks := drop_task i (tasks e)\<rparr>,
           [MintDone (quoteId q)]))"

fun engine_step :: "event \<Rightarrow> engine \<Rightarrow> engine \<times> action list" where
  "engine_step (TimerFires now) e =
     (if checkInterval (quotePoolManager (svc e)) then (checkQuotes e now, []) else (e, []))"
| "engine_step (CheckReturns i w) e =
     (if i < length (tasks e)
      then (case tasks e ! i of AwaitCheck q \<Rightarrow> afterCheck e i q w | AwaitMint q \<Rightarrow> (e, []))
      else (e, []))"
| "engine_step (MintReturns i w) e =
     (if i < length (tasks e)
      then (case tasks e ! i of AwaitMint q \<Rightarrow> afterMint e i q w | AwaitCheck q \<Rightarrow> (e, []))
      else (e, []))"

fun run :: "event list \<Rightarrow> engine \<Rightarrow> engine \<times> action list" where
  "run [] e = (e, [])"
| "run (ev # evs) e =
     (case engine_step ev e of (e1, xs) \<Rightarrow> (case run evs e1 of (e2, ys) \<Rightarrow> (e2, xs @ ys)))"

text \<open>Ticks do not overlap: the timer fires only when no task is in flight.\<close>

fun ticks_apart :: "event list \<Rightarrow> engine \<Rightarrow> bool" where
  "ticks_apart [] e = True"
| "ticks_apart (ev # evs) e =
     ((case ev of TimerFires now \<Rightarrow> tasks e = [] | _ \<Rightarrow> True)
      \<and> ticks_apart evs (fst (engine_step ev e)))"

definition task_quote :: "task \<Rightarrow> string" where
  "task_quote t = (case t of AwaitCheck q \<Rightarrow> quoteId q | AwaitMint q \<Rightarrow> quoteId q)"

definition tracked :: "engine \<Rightarrow> string list" where
  "tracked e = map quoteId (quotes (quotePoolManager (svc e)))"

section \<open>Operations on the pool\<close>

datatype pool_op = AddQuote string int nat | RemoveQuote string | CleanupExpired nat | Destroy

fun apply_pool_op :: "QuotePoolManager \<Rightarrow> pool_op \<Rightarrow> QuotePoolManager" where
  "apply_pool_op p (AddQuote qid a e) = addQuote p qid a e"
| "apply_pool_op p (RemoveQuote qid) = removeQuote p qid"
| "apply_pool_op p (CleanupExpired now) = cleanupExpiredQuotes p now"
| "apply_pool_op p Destroy = destroy p"

definition run_pool :: "pool_op list \<Rightarrow> QuotePoolManager" where
  "run_pool ops = foldl apply_pool_op newQuotePoolManager ops"

section \<open>Example values\<close>

definition mkRow :: "string \<Rightarrow> string \<Rightarrow> nat \<Rightarrow> proof_state \<Rightarrow> WalletProof" where
  "mkRow m sec a st =
     \<lparr>mintUrl = m, id' = ''00ad'', amount = a, secret = sec, C = ''02c0'',
      dleqJson = None, witnessJson = None, state = st, createdAt = 1700000000\<rparr>"

definition mkProof :: "string \<Rightarrow> nat \<Rightarrow> Proof" where
  "mkProof sec a =
     \<lparr>p_id = ''00ad'', p_amount = a, p_secret = sec, p_C = ''02c0'',
      p_dleq = None, p_witness = None\<rparr>"

text \<open>A world in which the mint is reachable for \<open>loadMint\<close> and rejects every call.\<close>

definition deafWorld :: world where
  "deafWorld =
     \<lparr>loadMint = True,
      createMintQuote_c = (\<lambda>a. None),
      checkMintQuote_c = (\<lambda>q. None),
      mintProofs_c = (\<lambda>a q. None),
      send_c = (\<lambda>a ps. None),
      receive_c = (\<lambda>t. None),
      createMeltQuote_c = (\<lambda>i. None),
      meltProofs_c = (\<lambda>m ps. None),
      checkMeltQuote_c = (\<lambda>q. None),
      checkProofsStates_c = (\<lambda>ps. None),
      unixTime = (\<lambda>k. 1700000100),
      getEncodedTokenV4 = (\<lambda>t. ''cashuB'')\<rparr>"

definition mintA :: string where
  "mintA = ''https://mint.a''"

definition mintB :: string where
  "mintB = ''https://mint.b''"

text \<open>A service at mint A over the given proof rows, its connection set up.\<close>

definition mkService :: "WalletProof list \<Rightarrow> service" where
  "mkService rows =
     (newService mintA [] [] \<lparr>cashu_proofs = rows, cashu_mint_quotes = []\<rparr>)
       \<lparr>cashuWallet := True\<rparr>"


text \<open>The timer state follows the occupancy of the pool.\<close>

definition pool_inv :: "QuotePoolManager \<Rightarrow> bool" where
  "pool_inv p = (isRunning p = (quotes p \<noteq> []) \<and> checkInterval p = isRunning p)"

text \<open>Worlds in which one call of the Protocol Client answers.\<close>

definition receiveWorld :: "Proof list \<Rightarrow> world" where
  "receiveWorld ps = deafWorld\<lparr>receive_c := (\<lambda>t. Some ps)\<rparr>"

definition splitWorld :: "Proof list \<Rightarrow> Proof list \<Rightarrow> world" where
  "splitWorld keep send = deafWorld\<lparr>send_c := (\<lambda>a ps. Some (keep, send))\<rparr>"

definition statesWorld :: "check_state option list \<Rightarrow> world" where
  "statesWorld sts = deafWorld\<lparr>checkProofsStates_c := (\<lambda>ps. Some sts)\<rparr>"

definition meltWorld :: "MeltQuoteResponse \<Rightarrow> Proof list \<Rightarrow> Proof list \<Rightarrow> Proof list \<Rightarrow> world" where
  "meltWorld mq keep send change =
     deafWorld\<lparr>createMeltQuote_c := (\<lambda>i. Some mq),
               send_c := (\<lambda>a ps. Some (keep, send)),
               meltProofs_c := (\<lambda>m ps. Some change),
               checkMeltQuote_c := (\<lambda>q. Some (MELT_PAID, Some ''00ff''))\<rparr>"

definition quoteWorld :: "quote_state \<Rightarrow> Proof list \<Rightarrow> world" where
  "quoteWorld st ps =
     deafWorld\<lparr>checkMintQuote_c := (\<lambda>q. Some (st, Some 64)),
               mintProofs_c := (\<lambda>a q. Some ps)\<rparr>"

definition offlineWorld :: world where
  "offlineWorld = deafWorld\<lparr>loadMint := False\<rparr>"

text \<open>
  The pending proofs the mint reports as \<open>SPENT\<close>: entry \<open>i\<close> of the answer is about
  \<open>pendingProofs[i]\<close>.
\<close>

definition spentReported :: "WalletProof list \<Rightarrow> check_state option list \<Rightarrow> WalletProof list" where
  "spentReported ps sts = map fst (filter (\<lambda>(p, st). st = Some CS_SPENT) (zip ps sts))"


text \<open>The rows \<open>saveProofs\<close> writes for a batch.\<close>

definition rowsOf :: "Proof list \<Rightarrow> string \<Rightarrow> proof_state \<Rightarrow> nat \<Rightarrow> WalletProof list" where
  "rowsOf ps M st t = map (\<lambda>p. proofRow p M st t) ps"

text \<open>
  The last proof of a batch that carries the given secret: of two rows written under one
  key, \<open>INSERT OR REPLACE\<close> leaves the later.
\<close>

definition lastWith :: "Proof list \<Rightarrow> string \<Rightarrow> Proof option" where
  "lastWith ps sec = find (\<lambda>p. p_secret p = sec) (rev ps)"

text \<open>
  The row a committed split is to leave under the key \<open>(M, sec)\<close>, if \<open>sec\<close> is the
  secret of a returned proof: the batches are written in the order keep (ready), send
  (inflight), change (ready), a later row replacing an earlier one with the same secret.
\<close>

definition persistedRow :: "string \<Rightarrow> Proof list \<Rightarrow> nat \<Rightarrow> Proof list \<Rightarrow> nat \<Rightarrow> Proof list \<Rightarrow> nat \<Rightarrow> string \<Rightarrow> WalletProof option" where
  "persistedRow M keep t0 send t1 change t2 sec =
     (case lastWith change sec of
        Some p \<Rightarrow> Some (proofRow p M ready t2)
      | None \<Rightarrow>
          (case lastWith send sec of
             Some p \<Rightarrow> Some (proofRow p M inflight t1)
           | None \<Rightarrow> map_option (\<lambda>p. proofRow p M ready t0) (lastWith keep sec)))"

text \<open>
  The ledger \<open>db'\<close> after a split was committed for mint \<open>M\<close> on the ledger \<open>db\<close>, the
  split having returned \<open>keep\<close>, \<open>send\<close> and \<open>change\<close>. The proof table is described in
  full:
  \<^item> for the secret of every returned proof the row to persist is stored;
  \<^item> every other row of \<open>db\<close> is still there, marked spent if its secret is the secret
    of a proof that was ready at \<open>M\<close>, and unchanged otherwise;
  \<^item> there are no further rows.

  Two consequences are spelt out: a proof that was ready at \<open>M\<close> and whose secret was not
  returned is stored as spent, and the proofs now ready at \<open>M\<close> are rows persisted for keep
  or change proofs.
\<close>

definition split_committed :: "WalletDb \<Rightarrow> string \<Rightarrow> WalletDb \<Rightarrow> Proof list \<Rightarrow> nat \<Rightarrow> Proof list \<Rightarrow> nat \<Rightarrow> Proof list \<Rightarrow> nat \<Rightarrow> bool" where
  "split_committed db M db' keep t0 send t1 change t2 =
     (let sel = getProofs db M (Some ready);
          pr = persistedRow M keep t0 send t1 change t2;
          replaced = (\<lambda>x. mintUrl x = M \<and> pr (secret x) \<noteq> None);
          mark = (\<lambda>x. if secret x \<in> secret ` set sel then x\<lparr>state := spent\<rparr> else x)
      in (\<forall>p\<in>set (keep @ send @ change).
            \<exists>row\<in>set (cashu_proofs db'). pr (p_secret p) = Some row) \<and>
         (\<forall>x\<in>set (cashu_proofs db). \<not> replaced x \<longrightarrow> mark x \<in> set (cashu_proofs db')) \<and>
         (\<forall>y\<in>set (cashu_proofs db').
            (mintUrl y = M \<and> pr (secret y) = Some y) \<or>
            (\<exists>x\<in>set (cashu_proofs db). \<not> replaced x \<and> y = mark x)) \<and>
         (\<forall>x\<in>set sel. pr (secret x) = None \<longrightarrow> x\<lparr>state := spent\<rparr> \<in> set (cashu_proofs db')) \<and>
         (\<forall>y\<in>set (getProofs db' M (Some ready)).
            pr (secret y) = Some y \<and> y \<in> set (rowsOf keep M ready t0 @ rowsOf change M ready t2)))"

text \<open>An example ledger, and a world in which a melt goes through.\<close>

definition exLedger :: service where
  "exLedger =
     mkService [mkRow mintA ''a'' 8 ready, mkRow mintA ''b'' 2 ready,
                mkRow mintB ''c'' 64 ready, mkRow mintA ''d'' 1 inflight]"

definition exMeltWorld :: world where
  "exMeltWorld =
     meltWorld \<lparr>melt_quote = ''mq1'', melt_amount = 3, fee_reserve = 1\<rparr>
       [mkProof ''k'' 5] [mkProof ''n'' 4] [mkProof ''ch'' 1]"

text \<open>A service whose quote table tracks the quote \<open>q1\<close> at two mints.\<close>

definition exQuotes :: service where
  "exQuotes =
     (mkService [])\<lparr>walletDb :=
        \<lparr>cashu_proofs = [],
         cashu_mint_quotes =
           [\<lparr>q_mintUrl = mintA, quote = ''q1'', q_state = UNPAID, request = ''lnbc640n1'',
             q_amount = 64, q_unit = ''sat'', expiry = 1700003600, pubkey = None\<rparr>,
            \<lparr>q_mintUrl = mintB, quote = ''q1'', q_state = UNPAID, request = ''lnbc10n1'',
             q_amount = 1, q_unit = ''sat'', expiry = 1700003600, pubkey = None\<rparr>]\<rparr>\<rparr>"

text \<open>
  A ledger with pending proofs, in a process whose connection is set up, and the same
  ledger in a process just started (no connection yet).
\<close>

definition exPending :: service where
  "exPending =
     mkService [mkRow mintA ''a'' 8 ready, mkRow mintA ''d'' 2 inflight,
                mkRow mintB ''d'' 16 inflight, mkRow mintA ''e'' 4 inflight]"

definition exRestarted :: service where
  "exRestarted = exPending\<lparr>cashuWallet := False\<rparr>"

text \<open>
  Ledgers with a proof of \<open>2 ^ 53\<close> units, where sums of doubles are no longer exact.
\<close>

definition exHuge :: service where
  "exHuge =
     mkService [mkRow mintA ''a'' 9007199254740992 ready, mkRow mintA ''b'' 3 ready]"

definition exHugePending :: service where
  "exHugePending =
     mkService [mkRow mintA ''a'' 9007199254740992 ready, mkRow mintA ''d'' 1 inflight]"

text \<open>
  What holds of the engine between steps when ticks do not overlap: the tracked ids are
  distinct (they are the keys of a map), at most one task is in flight per quote id, and
  every task in flight is for a tracked quote.
\<close>

definition engine_inv :: "engine \<Rightarrow> bool" where
  "engine_inv e =
     (distinct (tracked e) \<and> distinct (map task_quote (tasks e)) \<and>
      set (map task_quote (tasks e)) \<subseteq> set (tracked e))"

text \<open>
  An engine tracking one quote, and a world in which the mint reports the quote paid and
  issues proofs for it.
\<close>

definition exEngine :: engine where
  "exEngine =
     \<lparr>svc = exQuotes\<lparr>quotePoolManager := addQuote newQuotePoolManager ''q1'' 64 1700003600\<rparr>,
      tasks = []\<rparr>"

definition paidWorld :: world where
  "paidWorld = quoteWorld PAID [mkProof ''m1'' 64]"

section \<open>Proof state updates are keyed by the secret alone\<close>

text \<open>
  C9. \<open>updateProofState(secret, state)\<close> keeps the table's rows in place, sets the given
  state on every row whose secret matches, whatever its mint URL, leaves every row with
  another secret as it was, and does not touch the quote table.
\<close>

theorem updateProofState_keyed_by_secret:
  "length (cashu_proofs (updateProofState db s st)) = length (cashu_proofs db) \<and>
   (\<forall>i < length (cashu_proofs db).
      cashu_proofs (updateProofState db s st) ! i =
        (if secret (cashu_proofs db ! i) = s
         then (cashu_proofs db ! i)\<lparr>state := st\<rparr>
         else cashu_proofs db ! i)) \<and>
   cashu_mint_quotes (updateProofState db s st) = cashu_mint_quotes db"
  by (simp add: updateProofState_def)

theorem updateProofState_keyed_by_secret_witness:
  "cashu_proofs
     (updateProofState
        \<lparr>cashu_proofs = [mkRow mintA ''s1'' 8 ready, mkRow mintB ''s1'' 4 inflight,
                          mkRow mintA ''s2'' 2 ready],
         cashu_mint_quotes = []\<rparr> ''s1'' spent) ! 1 = mkRow mintB ''s1'' 4 spent
   \<and> cashu_proofs
     (updateProofState
        \<lparr>cashu_proofs = [mkRow mintA ''s1'' 8 ready, mkRow mintB ''s1'' 4 inflight,
                          mkRow mintA ''s2'' 2 ready],
         cashu_mint_quotes = []\<rparr> ''s1'' spent) ! 2 = mkRow mintA ''s2'' 2 ready"
  using updateProofState_keyed_by_secret
          [of "\<lparr>cashu_proofs = [mkRow mintA ''s1'' 8 ready, mkRow mintB ''s1'' 4 inflight,
                                 mkRow mintA ''s2'' 2 ready],
                cashu_mint_quotes = []\<rparr>" "''s1''" spent]
  by (simp add: mkRow_def)

section \<open>The timer of the monitoring engine\<close>

lemma map_set_nonempty: "map_set x ys \<noteq> []"
  by (cases ys) auto

lemma pool_inv_step: "pool_inv p \<Longrightarrow> pool_inv (apply_pool_op p op)"
  by (cases op)
     (auto simp: pool_inv_def addQuote_def removeQuote_def cleanupExpiredQuotes_def destroy_def
                 start_def stop_def Let_def map_set_nonempty map_delete_def)

lemma pool_inv_run: "pool_inv p \<Longrightarrow> pool_inv (foldl apply_pool_op p ops)"
  by (induction ops arbitrary: p) (simp_all add: pool_inv_step)

text \<open>
  C8. After any sequence of \<open>addQuote\<close>, \<open>removeQuote\<close>, expiry purges (and \<open>destroy\<close>)
  on a freshly constructed pool, the interval timer is set, and \<open>isRunning\<close> holds,
  exactly when the tracked set is not empty. So adding a quote to an idle pool starts the
  timer and removing the last tracked quote stops it.
\<close>

theorem timer_tracks_pool_occupancy:
  "checkInterval (run_pool ops) = (quotes (run_pool ops) \<noteq> []) \<and>
   isRunning (run_pool ops) = (quotes (run_pool ops) \<noteq> [])"
proof -
  have "pool_inv newQuotePoolManager"
    by (simp add: pool_inv_def newQuotePoolManager_def)
  then have "pool_inv (run_pool ops)"
    unfolding run_pool_def by (rule pool_inv_run)
  then show ?thesis by (auto simp: pool_inv_def)
qed

theorem timer_tracks_pool_occupancy_witness:
  "checkInterval (run_pool [AddQuote ''q1'' 100 50]) \<and>
   \<not> checkInterval (run_pool [AddQuote ''q1'' 100 50, RemoveQuote ''q1'']) \<and>
   checkInterval (run_pool [AddQuote ''q1'' 100 50, AddQuote ''q2'' 7 90, CleanupExpired 60]) \<and>
   \<not> checkInterval (run_pool [AddQuote ''q1'' 100 50, AddQuote ''q2'' 7 90, CleanupExpired 60, CleanupExpired 91])"
  using timer_tracks_pool_occupancy [of "[AddQuote ''q1'' 100 50]"]
        timer_tracks_pool_occupancy [of "[AddQuote ''q1'' 100 50, RemoveQuote ''q1'']"]
        timer_tracks_pool_occupancy [of "[AddQuote ''q1'' 100 50, AddQuote ''q2'' 7 90, CleanupExpired 60]"]
        timer_tracks_pool_occupancy [of "[AddQuote ''q1'' 100 50, AddQuote ''q2'' 7 90, CleanupExpired 60, CleanupExpired 91]"]
  by (simp add: run_pool_def newQuotePoolManager_def addQuote_def removeQuote_def
        cleanupExpiredQuotes_def start_def stop_def map_delete_def Let_def)

section \<open>Facts about sums of doubles\<close>

lemma bitlen_numeral:
  "bitlen 0 = 0"
  "bitlen (Suc 0) = Suc 0"
  "bitlen 1 = 1"
  "bitlen (numeral k) = Suc (bitlen (numeral k div 2))"
  by (simp_all add: bitlen.simps)

lemma round53_small: "n \<le> 2 ^ 53 \<Longrightarrow> round53 n = n"
  by (simp add: round53_def)

lemma foldl_js_add_exact:
  "a + sum_list (map f xs) \<le> 2 ^ 53 \<Longrightarrow>
     foldl (\<lambda>acc p. js_add acc (f p)) a xs = a + sum_list (map f xs)"
  by (induction xs arbitrary: a) (simp_all add: js_add_def round53_small add.assoc)

lemma sumProofs_w_exact:
  "sum_list (map amount ps) \<le> 2 ^ 53 \<Longrightarrow> sumProofs_w ps = sum_list (map amount ps)"
  using foldl_js_add_exact [of 0 amount ps] by (simp add: sumProofs_w_def)

section \<open>Facts about the ledger operations\<close>

lemma rowState_Nil [simp]: "rowState [] m sec = None"
  by (simp add: rowState_def)

lemma rowState_Cons:
  "rowState (r # rows) m sec =
     (if mintUrl r = m \<and> secret r = sec then Some (state r) else rowState rows m sec)"
  by (simp add: rowState_def)

lemma rowState_append:
  "rowState (xs @ ys) m sec =
     (case rowState xs m sec of None \<Rightarrow> rowState ys m sec | Some st \<Rightarrow> Some st)"
  by (induction xs) (simp_all add: rowState_Cons)

lemma rowState_filter_other:
  "rowState (filter (\<lambda>x. \<not> (mintUrl x = m' \<and> secret x = sec')) rows) m sec =
     (if m = m' \<and> sec = sec' then None else rowState rows m sec)"
  by (induction rows) (auto simp: rowState_Cons)

lemma rowState_insertOrReplace:
  "rowState (insertOrReplaceProof r rows) m sec =
     (if m = mintUrl r \<and> sec = secret r then Some (state r) else rowState rows m sec)"
  unfolding insertOrReplaceProof_def rowState_append rowState_filter_other
  by (auto simp: rowState_Cons split: option.splits)

lemma rowState_saveRows:
  "rowState (saveRows ps M st t rows) m sec =
     (if m = M \<and> sec \<in> p_secret ` set ps then Some st else rowState rows m sec)"
  by (induction ps arbitrary: rows) (auto simp: rowState_insertOrReplace proofRow_def)

lemma proofStateOf_saveProofs:
  "proofStateOf (saveProofs db ps M st t) m sec =
     (if m = M \<and> sec \<in> p_secret ` set ps then Some st else proofStateOf db m sec)"
  by (simp add: proofStateOf_def saveProofs_def rowState_saveRows)

lemma rowState_map_update:
  "rowState (map (\<lambda>r. if secret r = s then r\<lparr>state := st\<rparr> else r) rows) m sec =
     (if sec = s then map_option (\<lambda>x. st) (rowState rows m sec) else rowState rows m sec)"
  by (induction rows) (auto simp: rowState_Cons)

lemma proofStateOf_updateProofState:
  "proofStateOf (updateProofState db s st) m sec =
     (if sec = s then map_option (\<lambda>x. st) (proofStateOf db m sec) else proofStateOf db m sec)"
  by (simp add: proofStateOf_def updateProofState_def rowState_map_update)

lemma proofStateOf_markSpent:
  "proofStateOf (markSpent ps db) m sec =
     (if sec \<in> secret ` set ps then map_option (\<lambda>x. spent) (proofStateOf db m sec)
      else proofStateOf db m sec)"
  by (induction ps arbitrary: db)
     (auto simp: proofStateOf_updateProofState option.map_comp comp_def)

lemma proofStateOf_updateMintQuoteState [simp]:
  "proofStateOf (updateMintQuoteState db m' q st) m sec = proofStateOf db m sec"
  by (simp add: proofStateOf_def updateMintQuoteState_def)


lemma state_le_refl [simp]: "state_le a a"
  by (simp add: state_le_def)

lemma state_le_spent [simp]: "state_le a spent"
  by (cases a) (simp_all add: state_le_def)

lemma state_le_trans: "state_le a b \<Longrightarrow> state_le b c \<Longrightarrow> state_le a c"
  by (simp add: state_le_def)

lemma cashuWallet_set: "cashuWallet s \<Longrightarrow> s\<lparr>cashuWallet := True\<rparr> = s"
  by (cases s) simp

lemma ensure_eq:
  "ensureWalletInitialized s w =
     (if cashuWallet s \<or> loadMint w then Inr () else Inl ProtocolError, s\<lparr>cashuWallet := True\<rparr>)"
  by (auto simp: ensureWalletInitialized_def cashuWallet_set)

lemma success_collapse: "\<not> isl (fst x) \<Longrightarrow> x = (Inr (projr (fst x)), snd x)"
  by (cases x; cases "fst x"; simp)

lemma sendEcash_Inr:
  assumes "sendEcash s a w = (Inr r, s')"
  shows "send_c w a (getProofs (walletDb s) (svc_mintUrl s) (Some ready))
           = Some (keepProofs r, sentProofs r)"
    and "s' = s\<lparr>cashuWallet := True,
               walletDb :=
                 saveProofs
                   (saveProofs
                      (markSpent (getProofs (walletDb s) (svc_mintUrl s) (Some ready)) (walletDb s))
                      (keepProofs r) (svc_mintUrl s) ready (unixTime w 0))
                   (sentProofs r) (svc_mintUrl s) inflight (unixTime w 1)\<rparr>"
    and "sentAmount r = sumProofs (sentProofs r)"
    and "keepAmount r = sumProofs (keepProofs r)"
    and "0 < a" and "a \<le> int (sumProofs_w (getProofs (walletDb s) (svc_mintUrl s) (Some ready)))"
    and "cashuWallet s \<or> loadMint w"
  using assms
  by (auto simp: sendEcash_def ensure_eq Let_def transaction_def
           split: if_splits option.splits prod.splits)


lemma saveProofs_Nil [simp]: "saveProofs db [] M st t = db"
  by (simp add: saveProofs_def)

lemma payInvoice_db:
  "walletDb (snd (payInvoice s invoice w)) = walletDb s \<or>
   (\<exists>mq keep send change.
      createMeltQuote_c w invoice = Some mq \<and>
      send_c w (js_add_int (melt_amount mq) (fee_reserve mq))
        (getProofs (walletDb s) (svc_mintUrl s) (Some ready)) = Some (keep, send) \<and>
      meltProofs_c w mq send = Some change \<and>
      walletDb (snd (payInvoice s invoice w)) =
        saveProofs
          (saveProofs
             (saveProofs
                (markSpent (getProofs (walletDb s) (svc_mintUrl s) (Some ready)) (walletDb s))
                keep (svc_mintUrl s) ready (unixTime w 0))
             send (svc_mintUrl s) inflight (unixTime w 1))
          change (svc_mintUrl s) ready (unixTime w 2))"
  by (auto simp: payInvoice_def ensure_eq Let_def transaction_def
           split: if_splits option.splits prod.splits)

lemma spentReported_simps [simp]:
  "spentReported ps [] = []"
  "spentReported [] sts = []"
  "spentReported (p # ps) (st # sts) =
     (if st = Some CS_SPENT then p # spentReported ps sts else spentReported ps sts)"
  by (simp_all add: spentReported_def)

lemma cleanLoop_eq:
  "cleanLoop ps sts acc =
     (fst acc + length (spentReported ps sts),
      foldl (\<lambda>a p. js_add a (amount p)) (fst (snd acc)) (spentReported ps sts),
      markSpent (spentReported ps sts) (snd (snd acc)))"
  by (induction ps sts acc rule: cleanLoop.induct) auto

lemma cleanPendingProofs_db:
  "walletDb (snd (cleanPendingProofs s w)) = walletDb s \<or>
   (\<exists>sts. checkProofsStates_c w (getProofs (walletDb s) (svc_mintUrl s) (Some inflight)) = Some sts \<and>
      walletDb (snd (cleanPendingProofs s w)) =
        markSpent (spentReported (getProofs (walletDb s) (svc_mintUrl s) (Some inflight)) sts)
          (walletDb s))"
  by (auto simp: cleanPendingProofs_def ensure_eq Let_def cleanLoop_eq
           split: if_splits option.splits prod.splits)

lemma mintProofs_db:
  "walletDb (snd (mintProofs s qid a w)) = walletDb s \<or>
   (\<exists>ps. mintProofs_c w a qid = Some ps \<and>
      walletDb (snd (mintProofs s qid a w)) =
        updateMintQuoteState (saveProofs (walletDb s) ps (svc_mintUrl s) ready (unixTime w 0))
          (svc_mintUrl s) qid ISSUED)"
  by (auto simp: mintProofs_def ensure_eq split: if_splits option.splits)

lemma receiveEcash_db:
  "walletDb (snd (receiveEcash s tok w)) = walletDb s \<or>
   (\<exists>ps. receive_c w tok = Some ps \<and>
      walletDb (snd (receiveEcash s tok w)) =
        saveProofs (walletDb s) ps (svc_mintUrl s) ready (unixTime w 0))"
  by (auto simp: receiveEcash_def ensure_eq split: if_splits option.splits)

lemma sendEcash_db:
  "walletDb (snd (sendEcash s a w)) = walletDb s \<or>
   (\<exists>keep send.
      send_c w a (getProofs (walletDb s) (svc_mintUrl s) (Some ready)) = Some (keep, send) \<and>
      walletDb (snd (sendEcash s a w)) =
        saveProofs
          (saveProofs
             (markSpent (getProofs (walletDb s) (svc_mintUrl s) (Some ready)) (walletDb s))
             keep (svc_mintUrl s) ready (unixTime w 0))
          send (svc_mintUrl s) inflight (unixTime w 1))"
  by (auto simp: sendEcash_def ensure_eq Let_def transaction_def
           split: if_splits option.splits prod.splits)

lemma list_all_tagged:
  "list_all (\<lambda>(p, st). Q p st) (map (\<lambda>p. (p, c)) ps) = (\<forall>p\<in>set ps. Q p c)"
  by (simp add: list_all_iff)

lemma case_option_all:
  "(case x of None \<Rightarrow> True | Some old \<Rightarrow> Q old) = (\<forall>old. x = Some old \<longrightarrow> Q old)"
  by (cases x) simp_all

lemma apply_op_forward:
  assumes "no_regression s op w" and "proofStateOf (walletDb s) m sec = Some st"
  shows "\<exists>st'. proofStateOf (walletDb (apply_op s (op, w))) m sec = Some st' \<and> state_le st st'"
proof (cases op)
  case (MintProofs qid a)
  show ?thesis
    using mintProofs_db [of s qid a w] assms
    by (auto simp: MintProofs no_regression_def list_all_tagged case_option_all proofStateOf_saveProofs)
next
  case (SendEcash a)
  show ?thesis
    using sendEcash_db [of s a w] assms
    by (auto simp: SendEcash no_regression_def list_all_tagged case_option_all proofStateOf_saveProofs
          proofStateOf_markSpent)
next
  case (ReceiveEcash tok)
  show ?thesis
    using receiveEcash_db [of s tok w] assms
    by (auto simp: ReceiveEcash no_regression_def list_all_tagged case_option_all proofStateOf_saveProofs)
next
  case (PayInvoice invoice)
  show ?thesis
    using payInvoice_db [of s invoice w] assms
    by (auto simp: PayInvoice no_regression_def list_all_tagged case_option_all proofStateOf_saveProofs
          proofStateOf_markSpent)
next
  case CleanPendingProofs
  show ?thesis
    using cleanPendingProofs_db [of s w] assms(2)
    by (auto simp: CleanPendingProofs proofStateOf_markSpent)
qed

lemmas eval_defs =
  run_ops_def mkService_def newService_def emptyDb_def newQuotePoolManager_def mkRow_def mkProof_def
  mintA_def mintB_def deafWorld_def receiveWorld_def splitWorld_def statesWorld_def meltWorld_def
  quoteWorld_def offlineWorld_def
  ensureWalletInitialized_def sendEcash_def receiveEcash_def mintProofs_def payInvoice_def
  cleanPendingProofs_def getBalance_def checkMintQuote_def createMintQuote_def
  getProofs_def saveProofs_def insertOrReplaceProof_def proofRow_def updateProofState_def
  updateMintQuoteState_def saveMintQuote_def getBalance_db_def sumProofs_def sumProofs_w_def
  transaction_def proofStateOf_def rowState_def state_le_def no_regression_def Let_def
  js_add_def js_add_int_def round53_def

section \<open>The lifecycle of a stored proof\<close>

lemma fresh_or_ready_no_regression:
  assumes "list_all (\<lambda>(p, st). proofStateOf (walletDb s) (svc_mintUrl s) (p_secret p) = None \<or>
                               proofStateOf (walletDb s) (svc_mintUrl s) (p_secret p) = Some ready)
             (returned_proofs s op w)"
  shows "no_regression s op w"
  using assms unfolding no_regression_def list_all_iff
  by (auto simp: state_le_def split: option.splits)

text \<open>
  C2. In the data model a secret is unique within a mint and never reused, so a proof the
  Protocol Client returns carries a new secret or, where the split hands one of its inputs
  back, the secret of a proof that is ready. In either case
  (\<open>fresh_or_ready_no_regression\<close>) it does not reuse the secret of a proof stored for the
  configured mint in a later lifecycle state than the one it is persisted with, which is
  what \<open>ops_ok\<close> asks of every operation of a sequence. For every such sequence of the
  public operations \<open>mintProofs\<close>, \<open>sendEcash\<close>, \<open>receiveEcash\<close>, \<open>payInvoice\<close>,
  \<open>cleanPendingProofs\<close>, each in any world, every proof stored before the sequence is
  still stored after it (under the same mint and secret), in the same or a later state of
  \<open>ready \<rightarrow> inflight \<rightarrow> spent\<close>: no state moves backward.
\<close>

theorem proof_state_only_moves_forward:
  "ops_ok s ops \<Longrightarrow> proofStateOf (walletDb s) m sec = Some st \<Longrightarrow>
     \<exists>st'. proofStateOf (walletDb (run_ops s ops)) m sec = Some st' \<and> state_le st st'"
proof (induction ops arbitrary: s st)
  case Nil
  then show ?case by (simp add: run_ops_def)
next
  case (Cons x ops)
  obtain op w where x: "x = (op, w)" by (cases x)
  from Cons.prems have nr: "no_regression s op w" and ok: "ops_ok (apply_op s x) ops"
    by (simp_all add: x)
  from apply_op_forward [OF nr Cons.prems(2)] obtain st1
    where st1: "proofStateOf (walletDb (apply_op s x)) m sec = Some st1" and le1: "state_le st st1"
    by (auto simp: x)
  from Cons.IH [OF ok st1] obtain st' where
    "proofStateOf (walletDb (run_ops (apply_op s x) ops)) m sec = Some st'" "state_le st1 st'"
    by blast
  with le1 show ?case
    by (auto simp: run_ops_def intro: state_le_trans)
qed

theorem proof_state_only_moves_forward_witness:
  "ops_ok (mkService [mkRow mintA ''a'' 8 ready, mkRow mintA ''b'' 2 ready])
     [(SendEcash 8, splitWorld [mkProof ''b'' 2] [mkProof ''a'' 8]),
      (CleanPendingProofs, statesWorld [Some CS_SPENT])] \<and>
   proofStateOf (walletDb (mkService [mkRow mintA ''a'' 8 ready, mkRow mintA ''b'' 2 ready])) mintA ''a''
     = Some ready \<and>
   proofStateOf
     (walletDb (run_ops (mkService [mkRow mintA ''a'' 8 ready, mkRow mintA ''b'' 2 ready])
        [(SendEcash 8, splitWorld [mkProof ''b'' 2] [mkProof ''a'' 8]),
         (CleanPendingProofs, statesWorld [Some CS_SPENT])]))
     mintA ''a'' = Some spent"
  using proof_state_only_moves_forward [of "mkService [mkRow mintA ''a'' 8 ready, mkRow mintA ''b'' 2 ready]"
     "[(SendEcash 8, splitWorld [mkProof ''b'' 2] [mkProof ''a'' 8]),
       (CleanPendingProofs, statesWorld [Some CS_SPENT])]" mintA "''a''" ready]
  by (simp add: eval_defs)

section \<open>Sending with an insufficient balance\<close>

text \<open>
  C3 as stated fails, in two ways. \<open>sendEcash\<close> awaits \<open>ensureWalletInitialized\<close>
  first, so in a process that has not yet connected a failing \<open>loadMint\<close> is the error
  thrown, not \<open>InsufficientBalance\<close>. And the balance compared with the amount is a sum
  of doubles: ready proofs of \<open>2 ^ 53\<close> and 3 units sum to \<open>2 ^ 53 + 3\<close>, less than the
  amount \<open>2 ^ 53 + 4\<close>, but the sum computed is \<open>2 ^ 53 + 4\<close>, the check passes and the
  split is asked; its failure is the error thrown, and when it answers the ledger is
  written.
\<close>

theorem sendEcash_insufficient_balance_counterexample:
  "sum_list (map amount (getProofs (walletDb exRestarted) (svc_mintUrl exRestarted) (Some ready))) = 8 \<and>
   fst (sendEcash exRestarted 9 offlineWorld) = Inl ProtocolError \<and>
   sum_list (map amount (getProofs (walletDb exHuge) (svc_mintUrl exHuge) (Some ready)))
     = 9007199254740995 \<and>
   fst (sendEcash exHuge 9007199254740996 deafWorld) = Inl ProtocolError \<and>
   \<not> isl (fst (sendEcash exHuge 9007199254740996
                 (splitWorld [] [mkProof ''n'' 9007199254740992]))) \<and>
   proofStateOf (walletDb exHuge) mintA ''a'' = Some ready \<and>
   proofStateOf
     (walletDb (snd (sendEcash exHuge 9007199254740996
                       (splitWorld [] [mkProof ''n'' 9007199254740992]))))
     mintA ''a'' = Some spent"
  by (simp add: exRestarted_def exPending_def exHuge_def eval_defs bitlen_numeral)

text \<open>
  C3, amended. When the ready proofs of the configured mint, summed as \<open>sendEcash\<close> sums
  them (left to right, in doubles), come to less than the requested amount, \<open>sendEcash\<close>
  fails and leaves the whole ledger, proof rows and quote rows, as it was. The failure is
  \<open>InsufficientBalance\<close> when the connection to the mint is set up already or
  \<open>loadMint\<close> succeeds, and the error of \<open>loadMint\<close> otherwise. The sum computed is the
  exact sum whenever the exact sum is at most \<open>2 ^ 53\<close>.
\<close>

theorem sendEcash_insufficient_balance:
  assumes "int (sumProofs_w (getProofs (walletDb s) (svc_mintUrl s) (Some ready))) < a"
  shows "isl (fst (sendEcash s a w)) \<and>
         walletDb (snd (sendEcash s a w)) = walletDb s \<and>
         (cashuWallet s \<or> loadMint w \<longrightarrow> fst (sendEcash s a w) = Inl InsufficientBalance) \<and>
         (\<not> cashuWallet s \<and> \<not> loadMint w \<longrightarrow> fst (sendEcash s a w) = Inl ProtocolError) \<and>
         (sum_list (map amount (getProofs (walletDb s) (svc_mintUrl s) (Some ready))) \<le> 2 ^ 53 \<longrightarrow>
            sumProofs_w (getProofs (walletDb s) (svc_mintUrl s) (Some ready))
              = sum_list (map amount (getProofs (walletDb s) (svc_mintUrl s) (Some ready))))"
  using assms by (auto simp: sendEcash_def ensure_eq Let_def sumProofs_w_exact)

theorem sendEcash_insufficient_balance_witness:
  "int (sumProofs_w (getProofs (walletDb (mkService [mkRow mintA ''a'' 8 ready, mkRow mintA ''b'' 2 inflight, mkRow mintB ''c'' 64 ready]))
          (svc_mintUrl (mkService [mkRow mintA ''a'' 8 ready, mkRow mintA ''b'' 2 inflight, mkRow mintB ''c'' 64 ready])) (Some ready))) < 9 \<and>
   fst (sendEcash (mkService [mkRow mintA ''a'' 8 ready, mkRow mintA ''b'' 2 inflight, mkRow mintB ''c'' 64 ready]) 9
          (splitWorld [] [mkProof ''n'' 9])) = Inl InsufficientBalance \<and>
   walletDb (snd (sendEcash (mkService [mkRow mintA ''a'' 8 ready, mkRow mintA ''b'' 2 inflight, mkRow mintB ''c'' 64 ready]) 9
          (splitWorld [] [mkProof ''n'' 9])))
     = walletDb (mkService [mkRow mintA ''a'' 8 ready, mkRow mintA ''b'' 2 inflight, mkRow mintB ''c'' 64 ready]) \<and>
   sumProofs_w (getProofs (walletDb (mkService [mkRow mintA ''a'' 8 ready, mkRow mintA ''b'' 2 inflight, mkRow mintB ''c'' 64 ready]))
          (svc_mintUrl (mkService [mkRow mintA ''a'' 8 ready, mkRow mintA ''b'' 2 inflight, mkRow mintB ''c'' 64 ready])) (Some ready)) = 8"
  using sendEcash_insufficient_balance
    [of "mkService [mkRow mintA ''a'' 8 ready, mkRow mintA ''b'' 2 inflight, mkRow mintB ''c'' 64 ready]" 9
        "splitWorld [] [mkProof ''n'' 9]"]
  by (simp add: eval_defs)

section \<open>Conservation across the split\<close>



section \<open>The split takes the entire ready set\<close>

lemma rows_markSpent:
  "cashu_proofs (markSpent ps db) =
     map (\<lambda>r. if secret r \<in> secret ` set ps then r\<lparr>state := spent\<rparr> else r) (cashu_proofs db)"
proof (induction ps arbitrary: db)
  case Nil
  then show ?case by simp
next
  case (Cons p ps)
  show ?case
    by (simp add: Cons.IH updateProofState_def)
qed

lemma set_markSpent:
  "set (cashu_proofs (markSpent ps db)) =
     (\<lambda>r. if secret r \<in> secret ` set ps then r\<lparr>state := spent\<rparr> else r) ` set (cashu_proofs db)"
  by (simp only: rows_markSpent set_map)

lemma find_snoc:
  "find P (xs @ [x]) =
     (case find P xs of Some q \<Rightarrow> Some q | None \<Rightarrow> if P x then Some x else None)"
  by (induction xs) simp_all

lemma lastWith_Nil [simp]: "lastWith [] sec = None"
  by (simp add: lastWith_def)

lemma lastWith_Cons:
  "lastWith (p # ps) sec =
     (case lastWith ps sec of Some q \<Rightarrow> Some q | None \<Rightarrow> if p_secret p = sec then Some p else None)"
  by (simp add: lastWith_def find_snoc)

lemma lastWith_None: "lastWith ps sec = None \<longleftrightarrow> sec \<notin> p_secret ` set ps"
  by (induction ps) (auto simp: lastWith_Cons split: option.splits)

lemma lastWith_Some: "lastWith ps sec = Some p \<Longrightarrow> p \<in> set ps \<and> p_secret p = sec"
  by (induction ps) (auto simp: lastWith_Cons split: option.splits if_splits)

lemma lastWith_in: "lastWith ps sec = Some p \<Longrightarrow> sec \<in> p_secret ` set ps"
  using lastWith_None [of ps sec] by simp

lemma set_insertOrReplaceProof:
  "set (insertOrReplaceProof r rows) =
     {x \<in> set rows. \<not> (mintUrl x = mintUrl r \<and> secret x = secret r)} \<union> {r}"
  by (auto simp: insertOrReplaceProof_def)

lemma proofRow_sel [simp]:
  "mintUrl (proofRow p M st t) = M" "secret (proofRow p M st t) = p_secret p"
  "state (proofRow p M st t) = st"
  by (simp_all add: proofRow_def)

lemma set_saveRows:
  "set (saveRows ps M st t rows) =
     {x \<in> set rows. \<not> (mintUrl x = M \<and> secret x \<in> p_secret ` set ps)} \<union>
     {proofRow p M st t |p. lastWith ps (p_secret p) = Some p}"
proof (induction ps arbitrary: rows)
  case Nil
  then show ?case by simp
next
  case (Cons q ps)
  have last: "lastWith (q # ps) (p_secret p) = Some p \<longleftrightarrow>
                lastWith ps (p_secret p) = Some p \<or> (p = q \<and> p_secret q \<notin> p_secret ` set ps)" for p
    using lastWith_None [of ps "p_secret p"]
    by (auto simp: lastWith_Cons split: option.splits)
  show ?case
    unfolding saveRows.simps Cons.IH set_insertOrReplaceProof last
    by (auto dest: lastWith_Some)
qed

lemma in_saveRows:
  "y \<in> set (saveRows ps M st t rows) \<longleftrightarrow>
     (y \<in> set rows \<and> \<not> (mintUrl y = M \<and> lastWith ps (secret y) \<noteq> None)) \<or>
     (mintUrl y = M \<and> (\<exists>p. lastWith ps (secret y) = Some p \<and> y = proofRow p M st t))"
proof -
  have "(\<exists>p. y = proofRow p M st t \<and> lastWith ps (p_secret p) = Some p) \<longleftrightarrow>
          (mintUrl y = M \<and> (\<exists>p. lastWith ps (secret y) = Some p \<and> y = proofRow p M st t))"
  proof
    assume "\<exists>p. y = proofRow p M st t \<and> lastWith ps (p_secret p) = Some p"
    then obtain p where "y = proofRow p M st t" "lastWith ps (p_secret p) = Some p"
      by blast
    then show "mintUrl y = M \<and> (\<exists>p. lastWith ps (secret y) = Some p \<and> y = proofRow p M st t)"
      by simp
  next
    assume "mintUrl y = M \<and> (\<exists>p. lastWith ps (secret y) = Some p \<and> y = proofRow p M st t)"
    then obtain p where p: "lastWith ps (secret y) = Some p" and y: "y = proofRow p M st t"
      by blast
    from lastWith_Some [OF p] have "secret y = p_secret p" by simp
    with p have "lastWith ps (p_secret p) = Some p" by (simp only:)
    with y show "\<exists>p. y = proofRow p M st t \<and> lastWith ps (p_secret p) = Some p"
      by blast
  qed
  moreover have "y \<in> set (saveRows ps M st t rows) \<longleftrightarrow>
      (y \<in> set rows \<and> \<not> (mintUrl y = M \<and> lastWith ps (secret y) \<noteq> None)) \<or>
      (\<exists>p. y = proofRow p M st t \<and> lastWith ps (p_secret p) = Some p)"
    unfolding set_saveRows by (auto simp: lastWith_None)
  ultimately show ?thesis by simp
qed

lemma persistedRow_Some:
  assumes "persistedRow M keep t0 send t1 change t2 sec = Some row"
  shows "mintUrl row = M" and "secret row = sec"
    and "state row = ready \<Longrightarrow> row \<in> set (rowsOf keep M ready t0 @ rowsOf change M ready t2)"
  using assms
  by (auto simp: persistedRow_def rowsOf_def split: option.splits dest!: lastWith_Some)

lemma persistedRow_None:
  "persistedRow M keep t0 send t1 change t2 sec = None \<longleftrightarrow>
     sec \<notin> p_secret ` set (keep @ send @ change)"
  by (auto simp: persistedRow_def lastWith_None image_Un split: option.splits dest: lastWith_in)

lemma in_committed_rows:
  "y \<in> set (saveRows change M ready t2 (saveRows send M inflight t1 (saveRows keep M ready t0 rows)))
     \<longleftrightarrow>
     (mintUrl y = M \<and> persistedRow M keep t0 send t1 change t2 (secret y) = Some y) \<or>
     (y \<in> set rows \<and> \<not> (mintUrl y = M \<and> persistedRow M keep t0 send t1 change t2 (secret y) \<noteq> None))"
  unfolding in_saveRows persistedRow_def
  by (auto split: option.splits)

lemma split_committed_commit:
  "split_committed db M
     (saveProofs
        (saveProofs (saveProofs (markSpent (getProofs db M (Some ready)) db) keep M ready t0)
           send M inflight t1)
        change M ready t2)
     keep t0 send t1 change t2"
proof -
  let ?sel = "getProofs db M (Some ready)"
  let ?mark = "\<lambda>x. if secret x \<in> secret ` set ?sel then x\<lparr>state := spent\<rparr> else x"
  let ?pr = "persistedRow M keep t0 send t1 change t2"
  let ?db' = "saveProofs
                (saveProofs (saveProofs (markSpent ?sel db) keep M ready t0) send M inflight t1)
                change M ready t2"
  have key: "mintUrl (?mark x) = mintUrl x" "secret (?mark x) = secret x" for x
    by simp_all
  have rows': "y \<in> set (cashu_proofs ?db') \<longleftrightarrow>
                 (mintUrl y = M \<and> ?pr (secret y) = Some y) \<or>
                 (\<exists>x\<in>set (cashu_proofs db). \<not> (mintUrl x = M \<and> ?pr (secret x) \<noteq> None) \<and> y = ?mark x)"
    for y
  proof -
    have "y \<in> set (cashu_proofs ?db') \<longleftrightarrow>
            (mintUrl y = M \<and> ?pr (secret y) = Some y) \<or>
            (y \<in> ?mark ` set (cashu_proofs db) \<and> \<not> (mintUrl y = M \<and> ?pr (secret y) \<noteq> None))"
      unfolding saveProofs_def by (simp add: in_committed_rows rows_markSpent)
    also have "(y \<in> ?mark ` set (cashu_proofs db) \<and> \<not> (mintUrl y = M \<and> ?pr (secret y) \<noteq> None)) \<longleftrightarrow>
               (\<exists>x\<in>set (cashu_proofs db). \<not> (mintUrl x = M \<and> ?pr (secret x) \<noteq> None) \<and> y = ?mark x)"
    proof
      assume l: "y \<in> ?mark ` set (cashu_proofs db) \<and> \<not> (mintUrl y = M \<and> ?pr (secret y) \<noteq> None)"
      then obtain x where x: "x \<in> set (cashu_proofs db)" and yx: "y = ?mark x"
        by blast
      have "mintUrl y = mintUrl x" "secret y = secret x"
        unfolding yx by (rule key)+
      with l have "\<not> (mintUrl x = M \<and> ?pr (secret x) \<noteq> None)"
        by simp
      with x yx show "\<exists>x\<in>set (cashu_proofs db). \<not> (mintUrl x = M \<and> ?pr (secret x) \<noteq> None) \<and> y = ?mark x"
        by blast
    next
      assume "\<exists>x\<in>set (cashu_proofs db). \<not> (mintUrl x = M \<and> ?pr (secret x) \<noteq> None) \<and> y = ?mark x"
      then obtain x where x: "x \<in> set (cashu_proofs db)" and yx: "y = ?mark x"
        and n: "\<not> (mintUrl x = M \<and> ?pr (secret x) \<noteq> None)"
        by blast
      have "mintUrl y = mintUrl x" "secret y = secret x"
        unfolding yx by (rule key)+
      with n have "\<not> (mintUrl y = M \<and> ?pr (secret y) \<noteq> None)"
        by simp
      moreover from x yx have "y \<in> ?mark ` set (cashu_proofs db)"
        by (rule_tac image_eqI)
      ultimately show "y \<in> ?mark ` set (cashu_proofs db) \<and> \<not> (mintUrl y = M \<and> ?pr (secret y) \<noteq> None)"
        by (rule_tac conjI)
    qed
    finally show ?thesis .
  qed
  have c1: "\<exists>row\<in>set (cashu_proofs ?db'). ?pr (p_secret p) = Some row"
    if "p \<in> set (keep @ send @ change)" for p
  proof -
    from that have "?pr (p_secret p) \<noteq> None"
      unfolding persistedRow_None by blast
    then obtain row where row: "?pr (p_secret p) = Some row" by blast
    from persistedRow_Some(1,2) [OF row] row have "mintUrl row = M \<and> ?pr (secret row) = Some row"
      by simp
    then have "row \<in> set (cashu_proofs ?db')"
      unfolding rows' by (rule disjI1)
    with row show ?thesis by blast
  qed
  have c2: "?mark x \<in> set (cashu_proofs ?db')"
    if "x \<in> set (cashu_proofs db)" "\<not> (mintUrl x = M \<and> ?pr (secret x) \<noteq> None)" for x
    unfolding rows' using that by blast
  have c4: "x\<lparr>state := spent\<rparr> \<in> set (cashu_proofs ?db')"
    if x: "x \<in> set ?sel" and n: "?pr (secret x) = None" for x
  proof -
    from x have "x \<in> set (cashu_proofs db)" by (simp add: getProofs_def)
    from c2 [OF this] n have "?mark x \<in> set (cashu_proofs ?db')" by simp
    moreover from x have "?mark x = x\<lparr>state := spent\<rparr>" by simp
    ultimately show ?thesis by (simp only:)
  qed
  have c5: "?pr (secret y) = Some y \<and> y \<in> set (rowsOf keep M ready t0 @ rowsOf change M ready t2)"
    if "y \<in> set (getProofs ?db' M (Some ready))" for y
  proof -
    from that have y: "y \<in> set (cashu_proofs ?db')" and m: "mintUrl y = M" and st: "state y = ready"
      by (simp_all add: getProofs_def)
    from y [unfolded rows'] show ?thesis
    proof
      assume a: "mintUrl y = M \<and> ?pr (secret y) = Some y"
      with persistedRow_Some(3) [of M keep t0 send t1 change t2 "secret y" y] st show ?thesis
        by blast
    next
      assume "\<exists>x\<in>set (cashu_proofs db). \<not> (mintUrl x = M \<and> ?pr (secret x) \<noteq> None) \<and> y = ?mark x"
      then obtain x where x: "x \<in> set (cashu_proofs db)" and yx: "y = ?mark x" by blast
      from yx st have ns: "secret x \<notin> secret ` set ?sel" and sx: "state x = ready"
        by (auto split: if_splits)
      from yx m have "mintUrl x = M" by (simp split: if_splits)
      with x sx have "x \<in> set ?sel" by (simp add: getProofs_def)
      with ns show ?thesis by blast
    qed
  qed
  show ?thesis
    unfolding split_committed_def Let_def
    using c1 c2 c4 c5 rows' by (intro conjI ballI impI) blast+
qed

lemma rowsOf_Nil [simp]: "rowsOf [] M st t = []"
  by (simp add: rowsOf_def)

lemma payInvoice_Inr:
  assumes "payInvoice s invoice w = (Inr r, s')"
  shows "\<exists>mq. createMeltQuote_c w invoice = Some mq \<and>
           send_c w (js_add_int (melt_amount mq) (fee_reserve mq))
             (getProofs (walletDb s) (svc_mintUrl s) (Some ready))
             = Some (keptProofs r, pi_sentProofs r) \<and>
           meltProofs_c w mq (pi_sentProofs r) = Some (changeProofs r)"
    and "walletDb s' =
           saveProofs
             (saveProofs
                (saveProofs
                   (markSpent (getProofs (walletDb s) (svc_mintUrl s) (Some ready)) (walletDb s))
                   (keptProofs r) (svc_mintUrl s) ready (unixTime w 0))
                (pi_sentProofs r) (svc_mintUrl s) inflight (unixTime w 1))
             (changeProofs r) (svc_mintUrl s) ready (unixTime w 2)"
  using assms
  by (auto simp: payInvoice_def ensure_eq Let_def transaction_def
           split: if_splits option.splits prod.splits)

text \<open>
  C10 as stated fails where the split returns a proof under the secret of a selected
  proof (a split that hands input proofs back unswapped): the selected proof is marked
  spent and then replaced by the row persisted for the returned proof, so it ends
  inflight (or ready), not spent.
\<close>

theorem sendEcash_reused_secret_counterexample:
  "\<not> isl (fst (sendEcash (mkService [mkRow mintA ''a'' 8 ready, mkRow mintA ''b'' 2 ready]) 8
                 (splitWorld [mkProof ''b'' 2] [mkProof ''a'' 8]))) \<and>
   proofStateOf (walletDb (mkService [mkRow mintA ''a'' 8 ready, mkRow mintA ''b'' 2 ready])) mintA ''a''
     = Some ready \<and>
   proofStateOf
     (walletDb (snd (sendEcash (mkService [mkRow mintA ''a'' 8 ready, mkRow mintA ''b'' 2 ready]) 8
                       (splitWorld [mkProof ''b'' 2] [mkProof ''a'' 8]))))
     mintA ''a'' = Some inflight"
  by (simp add: eval_defs)

text \<open>
  C10, amended. A successful \<open>sendEcash\<close> or \<open>payInvoice\<close> has handed the entire
  ready proof set of the configured mint to the Protocol Client's split, whatever the
  amount, and has committed the split (\<open>split_committed\<close>). After the call, for the
  secret of every returned keep, send or change proof the row persisted for it is stored
  under the configured mint: inflight for a send proof, ready for a keep or change proof,
  the later batch (keep, then send, then change) deciding where a secret is returned more
  than once. Every other row is the row stored before, marked spent if its secret is the
  secret of a proof that was ready at the configured mint and unchanged otherwise, and
  there are no further rows. So every proof that was ready at the configured mint before
  the call is spent, unless its secret is the secret of a returned proof; and the ready
  proofs of the configured mint are rows persisted for keep (and change) proofs.
\<close>

theorem split_takes_entire_ready_set:
  "(sendEcash s a w = (Inr r, s') \<longrightarrow>
      send_c w a (getProofs (walletDb s) (svc_mintUrl s) (Some ready))
        = Some (keepProofs r, sentProofs r) \<and>
      split_committed (walletDb s) (svc_mintUrl s) (walletDb s')
        (keepProofs r) (unixTime w 0) (sentProofs r) (unixTime w 1) [] 0) \<and>
   (payInvoice s invoice w = (Inr r', s'') \<longrightarrow>
      (\<exists>mq. createMeltQuote_c w invoice = Some mq \<and>
         send_c w (js_add_int (melt_amount mq) (fee_reserve mq))
           (getProofs (walletDb s) (svc_mintUrl s) (Some ready))
           = Some (keptProofs r', pi_sentProofs r') \<and>
         meltProofs_c w mq (pi_sentProofs r') = Some (changeProofs r')) \<and>
      split_committed (walletDb s) (svc_mintUrl s) (walletDb s'')
        (keptProofs r') (unixTime w 0) (pi_sentProofs r') (unixTime w 1)
        (changeProofs r') (unixTime w 2))"
proof (intro conjI impI)
  assume run: "sendEcash s a w = (Inr r, s')"
  show "send_c w a (getProofs (walletDb s) (svc_mintUrl s) (Some ready))
          = Some (keepProofs r, sentProofs r)"
    by (rule sendEcash_Inr(1) [OF run])
  have "walletDb s' =
          saveProofs
            (saveProofs
               (saveProofs
                  (markSpent (getProofs (walletDb s) (svc_mintUrl s) (Some ready)) (walletDb s))
                  (keepProofs r) (svc_mintUrl s) ready (unixTime w 0))
               (sentProofs r) (svc_mintUrl s) inflight (unixTime w 1))
            [] (svc_mintUrl s) ready 0"
    using sendEcash_Inr(2) [OF run] by simp
  then show "split_committed (walletDb s) (svc_mintUrl s) (walletDb s')
        (keepProofs r) (unixTime w 0) (sentProofs r) (unixTime w 1) [] 0"
    by (simp only: split_committed_commit)
next
  assume run: "payInvoice s invoice w = (Inr r', s'')"
  show "\<exists>mq. createMeltQuote_c w invoice = Some mq \<and>
         send_c w (js_add_int (melt_amount mq) (fee_reserve mq))
           (getProofs (walletDb s) (svc_mintUrl s) (Some ready))
           = Some (keptProofs r', pi_sentProofs r') \<and>
         meltProofs_c w mq (pi_sentProofs r') = Some (changeProofs r')"
    by (rule payInvoice_Inr(1) [OF run])
  show "split_committed (walletDb s) (svc_mintUrl s) (walletDb s'')
        (keptProofs r') (unixTime w 0) (pi_sentProofs r') (unixTime w 1)
        (changeProofs r') (unixTime w 2)"
    unfolding payInvoice_Inr(2) [OF run] by (rule split_committed_commit)
qed

theorem split_takes_entire_ready_set_witness:
  "\<not> isl (fst (sendEcash exLedger 3 exMeltWorld)) \<and>
   \<not> isl (fst (payInvoice exLedger ''lnbc1'' exMeltWorld)) \<and>
   mkRow mintA ''a'' 8 spent \<in> set (cashu_proofs (walletDb (snd (sendEcash exLedger 3 exMeltWorld)))) \<and>
   proofRow (mkProof ''n'' 4) mintA inflight 1700000100
     \<in> set (cashu_proofs (walletDb (snd (sendEcash exLedger 3 exMeltWorld)))) \<and>
   getProofs (walletDb (snd (sendEcash exLedger 3 exMeltWorld))) mintA (Some ready)
     = [proofRow (mkProof ''k'' 5) mintA ready 1700000100] \<and>
   mkRow mintA ''b'' 2 spent \<in> set (cashu_proofs (walletDb (snd (payInvoice exLedger ''lnbc1'' exMeltWorld)))) \<and>
   proofRow (mkProof ''n'' 4) mintA inflight 1700000100
     \<in> set (cashu_proofs (walletDb (snd (payInvoice exLedger ''lnbc1'' exMeltWorld)))) \<and>
   getProofs (walletDb (snd (payInvoice exLedger ''lnbc1'' exMeltWorld))) mintA (Some ready)
     = [proofRow (mkProof ''k'' 5) mintA ready 1700000100,
        proofRow (mkProof ''ch'' 1) mintA ready 1700000100]"
proof -
  let ?r1 = "projr (fst (sendEcash exLedger 3 exMeltWorld))"
  let ?s1 = "snd (sendEcash exLedger 3 exMeltWorld)"
  let ?r2 = "projr (fst (payInvoice exLedger ''lnbc1'' exMeltWorld))"
  let ?s2 = "snd (payInvoice exLedger ''lnbc1'' exMeltWorld)"
  let ?t = "1700000100 :: nat"
  have r1: "\<not> isl (fst (sendEcash exLedger 3 exMeltWorld))"
    by (simp add: exLedger_def exMeltWorld_def eval_defs)
  have r2: "\<not> isl (fst (payInvoice exLedger ''lnbc1'' exMeltWorld))"
    by (simp add: exLedger_def exMeltWorld_def eval_defs)
  have e1: "sendEcash exLedger 3 exMeltWorld = (Inr ?r1, ?s1)"
    by (rule success_collapse [OF r1])
  have e2: "payInvoice exLedger ''lnbc1'' exMeltWorld = (Inr ?r2, ?s2)"
    by (rule success_collapse [OF r2])
  have k1: "keepProofs ?r1 = [mkProof ''k'' 5]" and n1: "sentProofs ?r1 = [mkProof ''n'' 4]"
    by (simp_all add: exLedger_def exMeltWorld_def eval_defs)
  have k2: "keptProofs ?r2 = [mkProof ''k'' 5]" and n2: "pi_sentProofs ?r2 = [mkProof ''n'' 4]"
    and ch2: "changeProofs ?r2 = [mkProof ''ch'' 1]"
    by (simp_all add: exLedger_def exMeltWorld_def eval_defs)
  have t: "unixTime exMeltWorld 0 = ?t" "unixTime exMeltWorld 1 = ?t" "unixTime exMeltWorld 2 = ?t"
    by (simp_all add: exMeltWorld_def meltWorld_def deafWorld_def)
  have m: "svc_mintUrl exLedger = mintA"
    by (simp add: exLedger_def mkService_def newService_def mintA_def)
  have sel: "getProofs (walletDb exLedger) mintA (Some ready)
               = [mkRow mintA ''a'' 8 ready, mkRow mintA ''b'' 2 ready]"
    by (simp add: exLedger_def eval_defs)
  note T = split_takes_entire_ready_set [of exLedger 3 exMeltWorld ?r1 ?s1 "''lnbc1''" ?r2 ?s2]
  have c1: "split_committed (walletDb exLedger) mintA (walletDb ?s1)
              [mkProof ''k'' 5] ?t [mkProof ''n'' 4] ?t [] 0"
    using T [THEN conjunct1, rule_format, OF e1, THEN conjunct2] unfolding k1 n1 t m .
  have c2: "split_committed (walletDb exLedger) mintA (walletDb ?s2)
              [mkProof ''k'' 5] ?t [mkProof ''n'' 4] ?t [mkProof ''ch'' 1] ?t"
    using T [THEN conjunct2, rule_format, OF e2, THEN conjunct2] unfolding k2 n2 ch2 t m .
  have a_in: "mkRow mintA ''a'' 8 ready \<in> set (getProofs (walletDb exLedger) mintA (Some ready))"
    and b_in: "mkRow mintA ''b'' 2 ready \<in> set (getProofs (walletDb exLedger) mintA (Some ready))"
    unfolding sel by simp_all
  have up: "(mkRow mintA ''a'' 8 ready)\<lparr>state := spent\<rparr> = mkRow mintA ''a'' 8 spent"
    "(mkRow mintA ''b'' 2 ready)\<lparr>state := spent\<rparr> = mkRow mintA ''b'' 2 spent"
    by (simp_all add: mkRow_def)
  have pa: "persistedRow mintA [mkProof ''k'' 5] ?t [mkProof ''n'' 4] ?t [] 0
              (secret (mkRow mintA ''a'' 8 ready)) = None"
    and pb: "persistedRow mintA [mkProof ''k'' 5] ?t [mkProof ''n'' 4] ?t [mkProof ''ch'' 1] ?t
              (secret (mkRow mintA ''b'' 2 ready)) = None"
    by (simp_all add: persistedRow_def lastWith_def mkProof_def mkRow_def)
  have pn1: "persistedRow mintA [mkProof ''k'' 5] ?t [mkProof ''n'' 4] ?t [] 0
               (p_secret (mkProof ''n'' 4)) = Some (proofRow (mkProof ''n'' 4) mintA inflight ?t)"
    and pn2: "persistedRow mintA [mkProof ''k'' 5] ?t [mkProof ''n'' 4] ?t [mkProof ''ch'' 1] ?t
               (p_secret (mkProof ''n'' 4)) = Some (proofRow (mkProof ''n'' 4) mintA inflight ?t)"
    by (simp_all add: persistedRow_def lastWith_def mkProof_def)
  have g1: "mkRow mintA ''a'' 8 spent \<in> set (cashu_proofs (walletDb ?s1))"
    using c1 [unfolded split_committed_def Let_def, THEN conjunct2, THEN conjunct2, THEN conjunct2,
              THEN conjunct1, rule_format, OF a_in pa]
    unfolding up .
  have g2: "mkRow mintA ''b'' 2 spent \<in> set (cashu_proofs (walletDb ?s2))"
    using c2 [unfolded split_committed_def Let_def, THEN conjunct2, THEN conjunct2, THEN conjunct2,
              THEN conjunct1, rule_format, OF b_in pb]
    unfolding up .
  have in1: "mkProof ''n'' 4 \<in> set ([mkProof ''k'' 5] @ [mkProof ''n'' 4] @ [])"
    and in2: "mkProof ''n'' 4 \<in> set ([mkProof ''k'' 5] @ [mkProof ''n'' 4] @ [mkProof ''ch'' 1])"
    by simp_all
  have h1: "proofRow (mkProof ''n'' 4) mintA inflight ?t \<in> set (cashu_proofs (walletDb ?s1))"
    using c1 [unfolded split_committed_def Let_def, THEN conjunct1, rule_format, OF in1]
    unfolding pn1 by blast
  have h2: "proofRow (mkProof ''n'' 4) mintA inflight ?t \<in> set (cashu_proofs (walletDb ?s2))"
    using c2 [unfolded split_committed_def Let_def, THEN conjunct1, rule_format, OF in2]
    unfolding pn2 by blast
  have q1: "getProofs (walletDb ?s1) mintA (Some ready) = [proofRow (mkProof ''k'' 5) mintA ready ?t]"
    by (simp add: exLedger_def exMeltWorld_def eval_defs)
  have q2: "getProofs (walletDb ?s2) mintA (Some ready)
              = [proofRow (mkProof ''k'' 5) mintA ready ?t, proofRow (mkProof ''ch'' 1) mintA ready ?t]"
    by (simp add: exLedger_def exMeltWorld_def eval_defs)
  from r1 r2 g1 h1 q1 g2 h2 q2 show ?thesis by (intro conjI)
qed

section \<open>The balance query\<close>

lemma getBalance_db_ready:
  "M \<noteq> [] \<Longrightarrow>
     getBalance_db db (Some M) = round53 (sum_list (map amount (getProofs db M (Some ready))))"
  by (simp add: getBalance_db_def getProofs_def conj_commute)

lemma newService_mintUrl: "svc_mintUrl (newService cfgMintUrl envMintUrl cfgUnit stored) \<noteq> []"
  by (simp add: newService_def)

lemma cleanPendingProofs_connected:
  "cashuWallet s \<or> loadMint w \<Longrightarrow> \<not> isl (fst (cleanPendingProofs s w))"
  by (auto simp: cleanPendingProofs_def ensure_eq Let_def split: option.splits prod.splits)

text \<open>
  C5 as stated fails, in two ways. \<open>getBalance\<close> awaits \<open>ensureWalletInitialized\<close>
  first, so in a process that has not yet connected a failing \<open>loadMint\<close> makes it throw
  and nothing is returned. And the total is a sum of doubles: with \<open>2 ^ 53\<close> units ready
  and 1 unit inflight the total reported is \<open>2 ^ 53\<close>, not their sum.
\<close>

theorem getBalance_counterexample:
  "fst (getBalance exRestarted offlineWorld) = Inl ProtocolError \<and>
   fst (getBalance exHugePending deafWorld)
     = Inr \<lparr>balance = 9007199254740992, pendingBalance = 1, total = 9007199254740992,
            pendingProofsCount = 1\<rparr>"
  by (simp add: exRestarted_def exPending_def exHugePending_def eval_defs bitlen_numeral)

text \<open>
  C5, amended. With the connection to the mint set up (or \<open>loadMint\<close> succeeding) and
  the mint URL non-empty, as the constructor leaves it, \<open>getBalance\<close> returns for every
  ledger the ready sum, the inflight sum and the total of the configured mint in double
  arithmetic: the ready sum is the exact sum rounded to a double, the inflight sum is
  added up left to right in doubles, and the total is their sum in doubles. Whenever the
  exact ready and inflight sums together are at most \<open>2 ^ 53\<close>, the three are exact: the
  sum of the ready proofs, the sum of the inflight proofs, and total equal to the ready
  sum plus the inflight sum. When there is an inflight proof the service is left in the
  state \<open>cleanPendingProofs\<close> produces, that is, the sweep has run before \<open>getBalance\<close>
  returns. (The sums are those read before the sweep.)
\<close>

theorem getBalance_reports_and_sweeps:
  assumes "cashuWallet s \<or> loadMint w" and "svc_mintUrl s \<noteq> []"
  shows "\<exists>r. getBalance s w =
               (Inr r,
                if getProofs (walletDb s) (svc_mintUrl s) (Some inflight) \<noteq> []
                then snd (cleanPendingProofs (s\<lparr>cashuWallet := True\<rparr>) w)
                else s\<lparr>cashuWallet := True\<rparr>) \<and>
             balance r = round53 (sum_list (map amount (getProofs (walletDb s) (svc_mintUrl s) (Some ready)))) \<and>
             pendingBalance r = sumProofs_w (getProofs (walletDb s) (svc_mintUrl s) (Some inflight)) \<and>
             total r = js_add (balance r) (pendingBalance r) \<and>
             (sum_list (map amount (getProofs (walletDb s) (svc_mintUrl s) (Some ready)))
                + sum_list (map amount (getProofs (walletDb s) (svc_mintUrl s) (Some inflight))) \<le> 2 ^ 53 \<longrightarrow>
                balance r = sum_list (map amount (getProofs (walletDb s) (svc_mintUrl s) (Some ready))) \<and>
                pendingBalance r = sum_list (map amount (getProofs (walletDb s) (svc_mintUrl s) (Some inflight))) \<and>
                total r = balance r + pendingBalance r)"
proof -
  let ?R = "getProofs (walletDb s) (svc_mintUrl s) (Some ready)"
  let ?P = "getProofs (walletDb s) (svc_mintUrl s) (Some inflight)"
  let ?r = "\<lparr>balance = round53 (sum_list (map amount ?R)), pendingBalance = sumProofs_w ?P,
             total = js_add (round53 (sum_list (map amount ?R))) (sumProofs_w ?P),
             pendingProofsCount = length ?P\<rparr>"
  have "\<not> isl (fst (cleanPendingProofs (s\<lparr>cashuWallet := True\<rparr>) w))"
    by (rule cleanPendingProofs_connected) simp
  then obtain c s2 where eq: "cleanPendingProofs (s\<lparr>cashuWallet := True\<rparr>) w = (Inr c, s2)"
    by (metis success_collapse)
  have run: "getBalance s w =
               (Inr ?r,
                if ?P \<noteq> [] then snd (cleanPendingProofs (s\<lparr>cashuWallet := True\<rparr>) w)
                else s\<lparr>cashuWallet := True\<rparr>)"
    using eq assms by (simp add: getBalance_def ensure_eq Let_def getBalance_db_ready)
  have exact: "round53 (sum_list (map amount ?R)) = sum_list (map amount ?R) \<and>
               sumProofs_w ?P = sum_list (map amount ?P) \<and>
               js_add (round53 (sum_list (map amount ?R))) (sumProofs_w ?P)
                 = round53 (sum_list (map amount ?R)) + sumProofs_w ?P"
    if "sum_list (map amount ?R) + sum_list (map amount ?P) \<le> 2 ^ 53"
    using that by (simp add: round53_small sumProofs_w_exact js_add_def)
  have fields: "balance ?r = round53 (sum_list (map amount ?R))"
    "pendingBalance ?r = sumProofs_w ?P"
    "total ?r = js_add (balance ?r) (pendingBalance ?r)"
    by simp_all
  have small: "sum_list (map amount ?R) + sum_list (map amount ?P) \<le> 2 ^ 53 \<longrightarrow>
                 balance ?r = sum_list (map amount ?R) \<and>
                 pendingBalance ?r = sum_list (map amount ?P) \<and>
                 total ?r = balance ?r + pendingBalance ?r"
  proof
    assume "sum_list (map amount ?R) + sum_list (map amount ?P) \<le> 2 ^ 53"
    from exact [OF this]
    have "round53 (sum_list (map amount ?R)) = sum_list (map amount ?R)"
      and "sumProofs_w ?P = sum_list (map amount ?P)"
      and "js_add (round53 (sum_list (map amount ?R))) (sumProofs_w ?P)
             = round53 (sum_list (map amount ?R)) + sumProofs_w ?P"
      by blast+
    then show "balance ?r = sum_list (map amount ?R) \<and>
                 pendingBalance ?r = sum_list (map amount ?P) \<and>
                 total ?r = balance ?r + pendingBalance ?r"
      by (simp only: BalanceResult.simps simp_thms)
  qed
  from run fields small show ?thesis
    by (intro exI [of _ ?r] conjI)
qed

theorem getBalance_reports_and_sweeps_witness:
  "fst (getBalance exLedger (statesWorld [Some CS_SPENT]))
     = Inr \<lparr>balance = 10, pendingBalance = 1, total = 11, pendingProofsCount = 1\<rparr> \<and>
   snd (getBalance exLedger (statesWorld [Some CS_SPENT]))
     = snd (cleanPendingProofs exLedger (statesWorld [Some CS_SPENT])) \<and>
   proofStateOf (walletDb (snd (getBalance exLedger (statesWorld [Some CS_SPENT])))) mintA ''d''
     = Some spent"
proof -
  have c: "cashuWallet exLedger \<or> loadMint (statesWorld [Some CS_SPENT])"
    and m: "svc_mintUrl exLedger \<noteq> []"
    and u: "exLedger\<lparr>cashuWallet := True\<rparr> = exLedger"
    by (simp_all add: exLedger_def mkService_def newService_def mintA_def)
  have p: "getProofs (walletDb exLedger) (svc_mintUrl exLedger) (Some inflight) = [mkRow mintA ''d'' 1 inflight]"
    and r: "sum_list (map amount (getProofs (walletDb exLedger) (svc_mintUrl exLedger) (Some ready))) = 10"
    by (simp_all add: exLedger_def eval_defs)
  have d: "proofStateOf (walletDb (snd (cleanPendingProofs exLedger (statesWorld [Some CS_SPENT])))) mintA ''d''
             = Some spent"
    by (simp add: exLedger_def eval_defs)
  from getBalance_reports_and_sweeps [OF c m] obtain r0 where
    "getBalance exLedger (statesWorld [Some CS_SPENT])
       = (Inr r0, snd (cleanPendingProofs exLedger (statesWorld [Some CS_SPENT])))"
    "balance r0 = 10" "pendingBalance r0 = 1" "total r0 = 11"
    unfolding p r u by (auto simp: mkRow_def)
  moreover have "pendingProofsCount (projr (fst (getBalance exLedger (statesWorld [Some CS_SPENT])))) = 1"
    by (simp add: exLedger_def eval_defs)
  ultimately show ?thesis using d by (cases r0) auto
qed

section \<open>Checking a mint quote\<close>

lemma updateMintQuoteState_idem:
  "updateMintQuoteState (updateMintQuoteState db m q st) m q st = updateMintQuoteState db m q st"
  by (simp add: updateMintQuoteState_def comp_def)

text \<open>
  C6. With the connection to the mint set up (or \<open>loadMint\<close> succeeding, as it has
  whenever the first run got as far as the Protocol Client), running \<open>checkMintQuote\<close>
  again in the same world, the Protocol Client reporting the same state, returns the same
  result and leaves the service, the quote table included, as the first run left it. Any
  result returned satisfies \<open>canMint = isPaid \<and> \<not> isIssued\<close>.
\<close>

theorem checkMintQuote_idempotent:
  assumes "cashuWallet s \<or> loadMint w"
  shows "checkMintQuote (snd (checkMintQuote s qid w)) qid w = checkMintQuote s qid w \<and>
         (\<forall>r. fst (checkMintQuote s qid w) = Inr r \<longrightarrow> canMint r = (isPaid r \<and> \<not> isIssued r))"
  using assms
  by (auto simp: checkMintQuote_def ensure_eq Let_def updateMintQuoteState_idem
           split: option.splits prod.splits)

theorem checkMintQuote_idempotent_witness:
  "checkMintQuote (snd (checkMintQuote exQuotes ''q1'' (quoteWorld PAID []))) ''q1'' (quoteWorld PAID [])
     = checkMintQuote exQuotes ''q1'' (quoteWorld PAID []) \<and>
   canMint (projr (fst (checkMintQuote exQuotes ''q1'' (quoteWorld PAID [])))) \<and>
   map q_state (cashu_mint_quotes (walletDb (snd (checkMintQuote exQuotes ''q1'' (quoteWorld PAID [])))))
     = [PAID, UNPAID]"
proof -
  have c: "cashuWallet exQuotes \<or> loadMint (quoteWorld PAID [])"
    by (simp add: exQuotes_def mkService_def newService_def)
  have r: "fst (checkMintQuote exQuotes ''q1'' (quoteWorld PAID []))
             = Inr \<lparr>mqs_quoteId = ''q1'', mqs_state = PAID, mqs_amount = 64,
                     isPaid = True, isIssued = False, canMint = True\<rparr>"
    and q: "map q_state (cashu_mint_quotes (walletDb (snd (checkMintQuote exQuotes ''q1'' (quoteWorld PAID [])))))
     = [PAID, UNPAID]"
    by (simp_all add: exQuotes_def eval_defs)
  from checkMintQuote_idempotent [OF c, of "''q1''"] r q show ?thesis
    by simp
qed

section \<open>The cleanup sweep\<close>

lemma in_spentReported:
  "y \<in> set (spentReported ps sts) \<longleftrightarrow>
     (\<exists>j. j < length ps \<and> j < length sts \<and> ps ! j = y \<and> sts ! j = Some CS_SPENT)"
  by (auto simp: spentReported_def set_zip image_iff)

lemma length_spentReported: "length (spentReported ps sts) \<le> length ps"
proof -
  have "length (spentReported ps sts) \<le> length (zip ps sts)"
    unfolding spentReported_def by (simp only: length_map length_filter_le)
  then show ?thesis by simp
qed

lemma markSpent_Nil_db [simp]: "s\<lparr>walletDb := markSpent [] (walletDb s)\<rparr> = s"
  by simp

lemma cleanPendingProofs_eq:
  assumes "cashuWallet s \<or> loadMint w"
  shows "cleanPendingProofs s w =
     (let pending = getProofs (walletDb s) (svc_mintUrl s) (Some inflight);
          sp = (case checkProofsStates_c w pending of
                  None \<Rightarrow> [] | Some sts \<Rightarrow> spentReported pending sts)
      in (Inr \<lparr>cleanedCount = length sp, cleanedAmount = sumProofs_w sp,
               totalChecked = length pending,
               remainingPending = length pending - length sp\<rparr>,
          s\<lparr>cashuWallet := True, walletDb := markSpent sp (walletDb s)\<rparr>))"
  using assms
  by (auto simp: cleanPendingProofs_def ensure_eq Let_def cleanLoop_eq sumProofs_w_def
           split: option.splits prod.splits)

lemma distinct_pending_keys:
  assumes "distinct (proof_keys db)"
  shows "distinct (map secret (getProofs db M st))"
proof -
  have "distinct (map (\<lambda>r. (mintUrl r, secret r)) (getProofs db M st))"
    using assms unfolding proof_keys_def getProofs_def by (rule distinct_map_filter)
  moreover have "\<forall>r\<in>set (getProofs db M st). mintUrl r = M"
    by (simp add: getProofs_def)
  ultimately show ?thesis
    by (auto simp: distinct_map inj_on_def)
qed

text \<open>
  C7 as stated fails: \<open>cleanPendingProofs\<close> awaits \<open>ensureWalletInitialized\<close>
  outside its \<open>try\<close>, so in a process that has not yet connected a failing \<open>loadMint\<close>
  is thrown to the caller.
\<close>

theorem cleanPendingProofs_throws_counterexample:
  "fst (cleanPendingProofs exRestarted offlineWorld) = Inl ProtocolError"
  by (simp add: exRestarted_def exPending_def cleanPendingProofs_def ensureWalletInitialized_def
        offlineWorld_def deafWorld_def mkService_def newService_def)

text \<open>
  C7, amended. Once the connection to the mint is set up (or when \<open>loadMint\<close>
  succeeds), \<open>cleanPendingProofs\<close> never throws: for every ledger (one that respects
  the primary key of the proof table) and every outcome of the batch query, a failed one
  included, it returns counts with \<open>totalChecked\<close> the number of inflight proofs of the
  configured mint and \<open>cleanedCount + remainingPending = totalChecked\<close>. A failed query
  leaves the ledger as it was; each inflight proof reported \<open>SPENT\<close> is stored as spent
  afterwards, and each reported \<open>UNSPENT\<close> is stored unchanged.
\<close>

theorem cleanPendingProofs_sweep:
  assumes conn: "cashuWallet s \<or> loadMint w"
    and keys: "distinct (proof_keys (walletDb s))"
  shows "\<exists>r s'. cleanPendingProofs s w = (Inr r, s') \<and>
           totalChecked r = length (getProofs (walletDb s) (svc_mintUrl s) (Some inflight)) \<and>
           cleanedCount r + remainingPending r = totalChecked r \<and>
           (checkProofsStates_c w (getProofs (walletDb s) (svc_mintUrl s) (Some inflight)) = None
              \<longrightarrow> walletDb s' = walletDb s) \<and>
           (\<forall>sts i.
              checkProofsStates_c w (getProofs (walletDb s) (svc_mintUrl s) (Some inflight)) = Some sts \<and>
              i < length (getProofs (walletDb s) (svc_mintUrl s) (Some inflight)) \<and> i < length sts
              \<longrightarrow>
                (sts ! i = Some CS_SPENT \<longrightarrow>
                   (getProofs (walletDb s) (svc_mintUrl s) (Some inflight) ! i)\<lparr>state := spent\<rparr>
                     \<in> set (cashu_proofs (walletDb s'))) \<and>
                (sts ! i = Some CS_UNSPENT \<longrightarrow>
                   getProofs (walletDb s) (svc_mintUrl s) (Some inflight) ! i
                     \<in> set (cashu_proofs (walletDb s'))))"
proof -
  let ?pending = "getProofs (walletDb s) (svc_mintUrl s) (Some inflight)"
  let ?sp = "case checkProofsStates_c w ?pending of None \<Rightarrow> [] | Some sts \<Rightarrow> spentReported ?pending sts"
  let ?r = "\<lparr>cleanedCount = length ?sp, cleanedAmount = sumProofs_w ?sp,
             totalChecked = length ?pending,
             remainingPending = length ?pending - length ?sp\<rparr>"
  let ?s' = "s\<lparr>cashuWallet := True, walletDb := markSpent ?sp (walletDb s)\<rparr>"
  have run: "cleanPendingProofs s w = (Inr ?r, ?s')"
    using cleanPendingProofs_eq [OF conn] by (simp add: Let_def)
  have len: "length ?sp \<le> length ?pending"
    by (auto simp: length_spentReported split: option.splits)
  have none: "checkProofsStates_c w ?pending = None \<longrightarrow> walletDb ?s' = walletDb s"
    by simp
  have each: "(sts ! i = Some CS_SPENT \<longrightarrow> (?pending ! i)\<lparr>state := spent\<rparr> \<in> set (cashu_proofs (walletDb ?s'))) \<and>
              (sts ! i = Some CS_UNSPENT \<longrightarrow> ?pending ! i \<in> set (cashu_proofs (walletDb ?s')))"
    if st: "checkProofsStates_c w ?pending = Some sts" and i: "i < length ?pending" "i < length sts"
    for sts i
  proof (intro conjI impI)
    have mem: "?pending ! i \<in> set (cashu_proofs (walletDb s))"
      using nth_mem [OF i(1)] by (simp add: getProofs_def)
    have db': "walletDb ?s' = markSpent (spentReported ?pending sts) (walletDb s)"
      by (simp add: st)
    {
      assume "sts ! i = Some CS_SPENT"
      then have "?pending ! i \<in> set (spentReported ?pending sts)"
        using i by (auto simp: in_spentReported)
      then show "(?pending ! i)\<lparr>state := spent\<rparr> \<in> set (cashu_proofs (walletDb ?s'))"
        unfolding db' set_markSpent using mem by force
    }
    {
      assume u: "sts ! i = Some CS_UNSPENT"
      have "secret (?pending ! i) \<notin> secret ` set (spentReported ?pending sts)"
      proof
        assume "secret (?pending ! i) \<in> secret ` set (spentReported ?pending sts)"
        then obtain j where j: "j < length ?pending" "j < length sts"
          and sec: "secret (?pending ! j) = secret (?pending ! i)" and sp: "sts ! j = Some CS_SPENT"
          by (auto simp: in_spentReported)
        have d: "distinct (map secret ?pending)"
          by (rule distinct_pending_keys [OF keys])
        from nth_eq_iff_index_eq [OF d, of j i] sec i(1) j(1) have "j = i"
          by simp
        with u sp show False by simp
      qed
      then show "?pending ! i \<in> set (cashu_proofs (walletDb ?s'))"
        unfolding db' set_markSpent using mem by force
    }
  qed
  show ?thesis
    apply (rule exI [of _ ?r], rule exI [of _ ?s'])
    using run len none each by simp
qed

theorem cleanPendingProofs_sweep_witness:
  "\<not> isl (fst (cleanPendingProofs exPending (statesWorld [Some CS_SPENT, Some CS_UNSPENT]))) \<and>
   totalChecked (projr (fst (cleanPendingProofs exPending (statesWorld [Some CS_SPENT, Some CS_UNSPENT])))) = 2 \<and>
   mkRow mintA ''d'' 2 spent
     \<in> set (cashu_proofs (walletDb (snd (cleanPendingProofs exPending (statesWorld [Some CS_SPENT, Some CS_UNSPENT]))))) \<and>
   mkRow mintA ''e'' 4 inflight
     \<in> set (cashu_proofs (walletDb (snd (cleanPendingProofs exPending (statesWorld [Some CS_SPENT, Some CS_UNSPENT])))))"
proof -
  let ?w = "statesWorld [Some CS_SPENT, Some CS_UNSPENT]"
  have c: "cashuWallet exPending \<or> loadMint ?w"
    by (simp add: exPending_def mkService_def newService_def)
  have k: "distinct (proof_keys (walletDb exPending))"
    by (simp add: exPending_def proof_keys_def mkService_def newService_def mkRow_def mintA_def mintB_def)
  have p: "getProofs (walletDb exPending) (svc_mintUrl exPending) (Some inflight)
             = [mkRow mintA ''d'' 2 inflight, mkRow mintA ''e'' 4 inflight]"
    by (simp add: exPending_def eval_defs)
  have a: "checkProofsStates_c ?w [mkRow mintA ''d'' 2 inflight, mkRow mintA ''e'' 4 inflight]
             = Some [Some CS_SPENT, Some CS_UNSPENT]"
    by (simp add: statesWorld_def deafWorld_def)
  have up: "(mkRow mintA ''d'' 2 inflight)\<lparr>state := spent\<rparr> = mkRow mintA ''d'' 2 spent"
    by (simp add: mkRow_def)
  from cleanPendingProofs_sweep [OF c k, unfolded p] obtain r s' where
    run: "cleanPendingProofs exPending ?w = (Inr r, s')"
    and n: "totalChecked r = 2"
    and each: "\<And>sts i. checkProofsStates_c ?w [mkRow mintA ''d'' 2 inflight, mkRow mintA ''e'' 4 inflight] = Some sts \<Longrightarrow>
                 i < 2 \<Longrightarrow> i < length sts \<Longrightarrow>
                 (sts ! i = Some CS_SPENT \<longrightarrow>
                    ([mkRow mintA ''d'' 2 inflight, mkRow mintA ''e'' 4 inflight] ! i)\<lparr>state := spent\<rparr>
                      \<in> set (cashu_proofs (walletDb s'))) \<and>
                 (sts ! i = Some CS_UNSPENT \<longrightarrow>
                    [mkRow mintA ''d'' 2 inflight, mkRow mintA ''e'' 4 inflight] ! i
                      \<in> set (cashu_proofs (walletDb s')))"
    by auto
  from each [OF a, of 0] have d: "mkRow mintA ''d'' 2 spent \<in> set (cashu_proofs (walletDb s'))"
    by (simp add: up)
  from each [OF a, of 1] have e: "mkRow mintA ''e'' 4 inflight \<in> set (cashu_proofs (walletDb s'))"
    by simp
  from run n d e show ?thesis by simp
qed

section \<open>Minting at most once\<close>

lemma quotes_stop [simp]: "quotes (stop p) = quotes p"
  by (simp add: stop_def Let_def)

lemma quotes_removeQuote [simp]: "quotes (removeQuote p q) = map_delete q (quotes p)"
  by (simp add: removeQuote_def Let_def)

lemma quotes_cleanupExpiredQuotes [simp]:
  "quotes (cleanupExpiredQuotes p now) = filter (\<lambda>q. \<not> now > item_expiry q) (quotes p)"
  by (simp add: cleanupExpiredQuotes_def Let_def)

lemma pool_checkMintQuote [simp]:
  "quotePoolManager (snd (checkMintQuote s q w)) = quotePoolManager s"
  by (simp add: checkMintQuote_def ensure_eq Let_def split: option.splits prod.splits)

lemma pool_mintProofs [simp]:
  "quotePoolManager (snd (mintProofs s q a w)) = quotePoolManager s"
  by (simp add: mintProofs_def ensure_eq split: option.splits)

lemma tracked_poolRemove:
  "map quoteId (quotes (quotePoolManager (poolRemove s q)))
     = filter (\<lambda>k. k \<noteq> q) (map quoteId (quotes (quotePoolManager s)))"
  by (simp add: poolRemove_def map_delete_def filter_map comp_def)

lemma afterCheck_cases:
  assumes "afterCheck e i q w = (e', acts)"
  shows "(tracked e' = tracked e \<and> tasks e' = (tasks e)[i := AwaitMint q] \<and> acts = [MintCall (quoteId q)]) \<or>
         (tracked e' = tracked e \<and> tasks e' = drop_task i (tasks e) \<and> acts = []) \<or>
         (tracked e' = filter (\<lambda>k. k \<noteq> quoteId q) (tracked e) \<and> tasks e' = drop_task i (tasks e) \<and> acts = [])"
proof (cases "checkMintQuote (svc e) (quoteId q) w")
  case (Pair res s1)
  then have p: "quotePoolManager s1 = quotePoolManager (svc e)"
    using pool_checkMintQuote [of "svc e" "quoteId q" w] by simp
  show ?thesis
    using assms Pair p
    by (cases res) (auto simp: afterCheck_def tracked_def tracked_poolRemove split: if_splits)
qed

lemma afterMint_cases:
  assumes "afterMint e i q w = (e', acts)"
  shows "(tracked e' = tracked e \<and> tasks e' = drop_task i (tasks e) \<and> acts = []) \<or>
         (tracked e' = filter (\<lambda>k. k \<noteq> quoteId q) (tracked e) \<and> tasks e' = drop_task i (tasks e)
            \<and> acts = [MintDone (quoteId q)])"
proof (cases "mintProofs (svc e) (quoteId q) (item_amount q) w")
  case (Pair res s1)
  then have p: "quotePoolManager s1 = quotePoolManager (svc e)"
    using pool_mintProofs [of "svc e" "quoteId q" "item_amount q" w] by simp
  show ?thesis
    using assms Pair p
    by (cases res) (auto simp: afterMint_def tracked_def tracked_poolRemove)
qed

lemma checkQuotes_effect:
  "tracked (checkQuotes e now) = map quoteId (filter (\<lambda>q. \<not> now > item_expiry q) (quotes (quotePoolManager (svc e))))"
  "map task_quote (tasks (checkQuotes e now)) =
     map task_quote (tasks e) @
     take (maxConcurrentChecks (cleanupExpiredQuotes (quotePoolManager (svc e)) now)) (tracked (checkQuotes e now))"
  by (simp_all add: checkQuotes_def tracked_def Let_def take_map comp_def task_quote_def)

lemma drop_task_props:
  assumes i: "i < length ts" and d: "distinct (map f ts)"
  shows "distinct (map f (drop_task i ts))"
    and "f (ts ! i) \<notin> set (map f (drop_task i ts))"
    and "set (map f (drop_task i ts)) \<subseteq> set (map f ts)"
proof -
  have "map f ts = map f (take i ts) @ f (ts ! i) # map f (drop (Suc i) ts)"
    using id_take_nth_drop [OF i] by (metis list.simps(9) map_append)
  with d have dd: "distinct (map f (take i ts) @ f (ts ! i) # map f (drop (Suc i) ts))"
    by simp
  from dd show "distinct (map f (drop_task i ts))"
    by (simp add: drop_task_def)
  from dd show "f (ts ! i) \<notin> set (map f (drop_task i ts))"
    by (simp add: drop_task_def)
  show "set (map f (drop_task i ts)) \<subseteq> set (map f ts)"
    using set_take_subset [of i ts] set_drop_subset [of "Suc i" ts]
    by (auto simp: drop_task_def)
qed

lemma task_quote_simps [simp]:
  "task_quote (AwaitCheck q) = quoteId q" "task_quote (AwaitMint q) = quoteId q"
  by (simp_all add: task_quote_def)

lemma inv_drop_task:
  assumes inv: "engine_inv e" and i: "i < length (tasks e)"
    and t: "tasks e' = drop_task i (tasks e)"
    and tr: "tracked e' = tracked e \<or> tracked e' = filter (\<lambda>k. k \<noteq> task_quote (tasks e ! i)) (tracked e)"
  shows "engine_inv e'"
proof -
  from inv have d: "distinct (map task_quote (tasks e))" and dt: "distinct (tracked e)"
    and sub: "set (map task_quote (tasks e)) \<subseteq> set (tracked e)"
    by (simp_all add: engine_inv_def)
  note p = drop_task_props [OF i d]
  from tr show ?thesis
  proof
    assume "tracked e' = tracked e"
    with p sub dt show ?thesis by (auto simp: engine_inv_def t)
  next
    assume f: "tracked e' = filter (\<lambda>k. k \<noteq> task_quote (tasks e ! i)) (tracked e)"
    have "set (map task_quote (drop_task i (tasks e))) \<subseteq> set (tracked e')"
      using p(2,3) sub unfolding f by (auto simp del: set_map)
    with p(1) dt show ?thesis by (simp add: engine_inv_def t f)
  qed
qed

lemma inv_engine_step:
  assumes inv: "engine_inv e"
    and apart: "case ev of TimerFires now \<Rightarrow> tasks e = [] | _ \<Rightarrow> True"
  shows "engine_inv (fst (engine_step ev e))"
proof (cases ev)
  case (TimerFires now)
  with apart have nil: "tasks e = []" by simp
  from inv have dt: "distinct (tracked e)" by (simp add: engine_inv_def)
  show ?thesis
  proof (cases "checkInterval (quotePoolManager (svc e))")
    case True
    have tr: "tracked (checkQuotes e now)
                = map quoteId (filter (\<lambda>q. \<not> now > item_expiry q) (quotes (quotePoolManager (svc e))))"
      by (rule checkQuotes_effect(1))
    have d': "distinct (tracked (checkQuotes e now))"
      unfolding tr using dt unfolding tracked_def by (rule distinct_map_filter)
    have ts: "map task_quote (tasks (checkQuotes e now)) =
                take (maxConcurrentChecks (cleanupExpiredQuotes (quotePoolManager (svc e)) now))
                  (tracked (checkQuotes e now))"
      using checkQuotes_effect(2) [of e now] by (simp add: nil)
    have "engine_inv (checkQuotes e now)"
      unfolding engine_inv_def ts using d' by (auto dest: in_set_takeD)
    with True show ?thesis by (simp add: TimerFires)
  next
    case False
    with inv show ?thesis by (simp add: TimerFires)
  qed
next
  case (CheckReturns i w)
  show ?thesis
  proof (cases "i < length (tasks e)")
    case False
    with inv show ?thesis by (simp add: CheckReturns)
  next
    case i: True
    show ?thesis
    proof (cases "tasks e ! i")
      case (AwaitMint q)
      with inv i show ?thesis by (simp add: CheckReturns)
    next
      case (AwaitCheck q)
      obtain e' acts where r: "afterCheck e i q w = (e', acts)" by (cases "afterCheck e i q w")
      from afterCheck_cases [OF r] have "engine_inv e'"
      proof (elim disjE conjE)
        assume tr: "tracked e' = tracked e" and t: "tasks e' = (tasks e)[i := AwaitMint q]"
        have "map task_quote (tasks e') = map task_quote (tasks e)"
          unfolding t map_update using AwaitCheck i
          by (metis list_update_id nth_map task_quote_simps(1) task_quote_simps(2))
        with inv tr show ?thesis by (simp add: engine_inv_def)
      next
        assume "tracked e' = tracked e" and "tasks e' = drop_task i (tasks e)"
        with inv i show ?thesis by (auto intro: inv_drop_task)
      next
        assume "tracked e' = filter (\<lambda>k. k \<noteq> quoteId q) (tracked e)"
          and "tasks e' = drop_task i (tasks e)"
        with inv i AwaitCheck show ?thesis by (auto intro: inv_drop_task)
      qed
      with i AwaitCheck r show ?thesis by (simp add: CheckReturns)
    qed
  qed
next
  case (MintReturns i w)
  show ?thesis
  proof (cases "i < length (tasks e)")
    case False
    with inv show ?thesis by (simp add: MintReturns)
  next
    case i: True
    show ?thesis
    proof (cases "tasks e ! i")
      case (AwaitCheck q)
      with inv i show ?thesis by (simp add: MintReturns)
    next
      case (AwaitMint q)
      obtain e' acts where r: "afterMint e i q w = (e', acts)" by (cases "afterMint e i q w")
      from afterMint_cases [OF r] have "engine_inv e'"
      proof (elim disjE conjE)
        assume "tracked e' = tracked e" and "tasks e' = drop_task i (tasks e)"
        with inv i show ?thesis by (auto intro: inv_drop_task)
      next
        assume "tracked e' = filter (\<lambda>k. k \<noteq> quoteId q) (tracked e)"
          and "tasks e' = drop_task i (tasks e)"
        with inv i AwaitMint show ?thesis by (auto intro: inv_drop_task)
      qed
      with i AwaitMint r show ?thesis by (simp add: MintReturns)
    qed
  qed
qed

lemma engine_step_summary:
  assumes "engine_step ev e = (e', acts)"
  shows "(acts = [] \<and> set (tracked e') \<subseteq> set (tracked e)) \<or>
         (\<exists>q. acts = [MintCall q] \<and> q \<in> set (map task_quote (tasks e)) \<and>
              tracked e' = tracked e) \<or>
         (\<exists>q. acts = [MintDone q] \<and> q \<in> set (map task_quote (tasks e)) \<and>
              tracked e' = filter (\<lambda>k. k \<noteq> q) (tracked e))"
proof (cases ev)
  case (TimerFires now)
  have "set (tracked (checkQuotes e now)) \<subseteq> set (tracked e)"
    using checkQuotes_effect(1) [of e now] by (auto simp: tracked_def)
  with assms show ?thesis
    by (auto simp: TimerFires split: if_splits)
next
  case (CheckReturns i w)
  show ?thesis
  proof (cases "i < length (tasks e)")
    case False
    with assms show ?thesis by (auto simp: CheckReturns)
  next
    case i: True
    show ?thesis
    proof (cases "tasks e ! i")
      case (AwaitMint q)
      with assms i show ?thesis by (auto simp: CheckReturns)
    next
      case (AwaitCheck q)
      with assms i have r: "afterCheck e i q w = (e', acts)" by (simp add: CheckReturns)
      have "quoteId q \<in> set (map task_quote (tasks e))"
        using nth_mem [OF i] AwaitCheck by (metis image_eqI set_map task_quote_simps(1))
      with afterCheck_cases [OF r] show ?thesis by auto
    qed
  qed
next
  case (MintReturns i w)
  show ?thesis
  proof (cases "i < length (tasks e)")
    case False
    with assms show ?thesis by (auto simp: MintReturns)
  next
    case i: True
    show ?thesis
    proof (cases "tasks e ! i")
      case (AwaitCheck q)
      with assms i show ?thesis by (auto simp: MintReturns)
    next
      case (AwaitMint q)
      with assms i have r: "afterMint e i q w = (e', acts)" by (simp add: MintReturns)
      have "quoteId q \<in> set (map task_quote (tasks e))"
        using nth_mem [OF i] AwaitMint by (metis image_eqI set_map task_quote_simps(2))
      with afterMint_cases [OF r] show ?thesis by auto
    qed
  qed
qed

lemma nothing_when_untracked:
  "engine_inv e \<Longrightarrow> q \<notin> set (tracked e) \<Longrightarrow> ticks_apart evs e \<Longrightarrow>
     MintDone q \<notin> set (snd (run evs e)) \<and> MintCall q \<notin> set (snd (run evs e))"
proof (induction evs arbitrary: e)
  case Nil
  then show ?case by simp
next
  case (Cons ev evs)
  obtain e' acts where st: "engine_step ev e = (e', acts)" by (cases "engine_step ev e")
  obtain e'' bs where rn: "run evs e' = (e'', bs)" by (cases "run evs e'")
  from Cons.prems(3) have ap: "case ev of TimerFires now \<Rightarrow> tasks e = [] | _ \<Rightarrow> True"
    and rest: "ticks_apart evs e'"
    by (simp_all add: st)
  from inv_engine_step [OF Cons.prems(1) ap] have inv': "engine_inv e'" by (simp add: st)
  from Cons.prems(1) have sub: "set (map task_quote (tasks e)) \<subseteq> set (tracked e)"
    by (simp add: engine_inv_def)
  from engine_step_summary [OF st] sub Cons.prems(2)
  have q': "q \<notin> set (tracked e')" and none: "MintDone q \<notin> set acts" "MintCall q \<notin> set acts"
    by auto
  from Cons.IH [OF inv' q' rest] none show ?case
    by (simp add: st rn)
qed

lemma at_most_one_mint_inv:
  "engine_inv e \<Longrightarrow> ticks_apart evs e \<Longrightarrow>
     count_list (snd (run evs e)) (MintDone q) \<le> 1 \<and>
     (\<forall>xs ys. snd (run evs e) = xs @ MintDone q # ys \<longrightarrow> MintCall q \<notin> set ys)"
proof (induction evs arbitrary: e)
  case Nil
  then show ?case by simp
next
  case (Cons ev evs)
  obtain e' acts where st: "engine_step ev e = (e', acts)" by (cases "engine_step ev e")
  obtain e'' bs where rn: "run evs e' = (e'', bs)" by (cases "run evs e'")
  from Cons.prems(2) have ap: "case ev of TimerFires now \<Rightarrow> tasks e = [] | _ \<Rightarrow> True"
    and rest: "ticks_apart evs e'"
    by (simp_all add: st)
  from inv_engine_step [OF Cons.prems(1) ap] have inv': "engine_inv e'" by (simp add: st)
  have acts_eq: "snd (run (ev # evs) e) = acts @ bs"
    by (simp add: st rn)
  from Cons.IH [OF inv' rest] rn
  have ih1: "count_list bs (MintDone q) \<le> 1"
    and ih2: "\<And>xs ys. bs = xs @ MintDone q # ys \<Longrightarrow> MintCall q \<notin> set ys"
    by auto
  from engine_step_summary [OF st] show ?case
  proof (elim disjE conjE exE)
    assume "acts = []"
    with ih1 ih2 show ?thesis unfolding acts_eq by auto
  next
    fix k
    assume a: "acts = [MintCall k]"
    have "MintCall q \<notin> set ys" if "[MintCall k] @ bs = xs @ MintDone q # ys" for xs ys
    proof (cases xs)
      case Nil
      with that show ?thesis by simp
    next
      case (Cons x xs')
      with that have "bs = xs' @ MintDone q # ys" by simp
      then show ?thesis by (rule ih2)
    qed
    with ih1 show ?thesis unfolding acts_eq a by auto
  next
    fix k
    assume a: "acts = [MintDone k]" and tr: "tracked e' = filter (\<lambda>x. x \<noteq> k) (tracked e)"
    show ?thesis
    proof (cases "k = q")
      case True
      with tr have "q \<notin> set (tracked e')" by simp
      from nothing_when_untracked [OF inv' this rest] rn
      have n1: "MintDone q \<notin> set bs" and n2: "MintCall q \<notin> set bs" by simp_all
      from n1 have c0: "count_list bs (MintDone q) = 0" by (simp add: count_list_0_iff)
      have "MintCall q \<notin> set ys" if "[MintDone k] @ bs = xs @ MintDone q # ys" for xs ys
      proof (cases xs)
        case Nil
        with that n2 show ?thesis by simp
      next
        case (Cons x xs')
        with that have "bs = xs' @ MintDone q # ys" by simp
        with n1 show ?thesis by simp
      qed
      with c0 True show ?thesis unfolding acts_eq a by auto
    next
      case False
      have "MintCall q \<notin> set ys" if "[MintDone k] @ bs = xs @ MintDone q # ys" for xs ys
      proof (cases xs)
        case Nil
        with that False show ?thesis by simp
      next
        case (Cons x xs')
        with that have "bs = xs' @ MintDone q # ys" by simp
        then show ?thesis by (rule ih2)
      qed
      with ih1 False show ?thesis unfolding acts_eq a by auto
    qed
  qed
qed

lemmas engine_defs =
  exEngine_def paidWorld_def exQuotes_def afterCheck_def afterMint_def checkQuotes_def
  cleanupExpiredQuotes_def addQuote_def removeQuote_def poolRemove_def start_def stop_def
  map_delete_def drop_task_def tracked_def

text \<open>
  C1 as stated fails. The pool keeps a quote until its mint has succeeded and nothing
  records that a check or mint for it is in flight, so a tick that fires while the task of
  an earlier tick still awaits \<open>mintProofs\<close> starts a second task for the same quote;
  the mint still reports it paid and not issued, and \<open>mintProofs\<close> is called a second
  time for the same quote id.
\<close>

theorem overlapping_ticks_mint_twice_counterexample:
  "\<not> ticks_apart
       [TimerFires 1700000005, CheckReturns 0 paidWorld, TimerFires 1700000010,
        CheckReturns 1 paidWorld, MintReturns 0 paidWorld, MintReturns 0 deafWorld] exEngine \<and>
   snd (run [TimerFires 1700000005, CheckReturns 0 paidWorld, TimerFires 1700000010,
             CheckReturns 1 paidWorld, MintReturns 0 paidWorld, MintReturns 0 deafWorld] exEngine)
     = [MintCall ''q1'', MintCall ''q1'', MintDone ''q1'']"
  by (simp add: engine_defs eval_defs)

text \<open>
  C1, amended. In every execution of the engine (timer ticks, returns of
  \<open>checkMintQuote\<close> and of \<open>mintProofs\<close> in any world, in any order) in which the
  timer fires only when no task of an earlier tick is in flight, started with no task in
  flight, \<open>mintProofs\<close> returns successfully at most once for each quote id, and once it
  has, \<open>mintProofs\<close> is never called for that quote id again.
\<close>

theorem at_most_one_mint_when_ticks_apart:
  assumes "tasks e = []" and "distinct (tracked e)" and "ticks_apart evs e"
  shows "count_list (snd (run evs e)) (MintDone q) \<le> 1 \<and>
         (\<forall>xs ys. snd (run evs e) = xs @ MintDone q # ys \<longrightarrow> MintCall q \<notin> set ys)"
proof -
  from assms(1,2) have "engine_inv e" by (simp add: engine_inv_def)
  from at_most_one_mint_inv [OF this assms(3)] show ?thesis .
qed

theorem at_most_one_mint_when_ticks_apart_witness:
  "tasks exEngine = [] \<and> distinct (tracked exEngine) \<and>
   ticks_apart
     [TimerFires 1700000005, CheckReturns 0 paidWorld, MintReturns 0 deafWorld,
      TimerFires 1700000010, CheckReturns 0 paidWorld, MintReturns 0 paidWorld,
      TimerFires 1700000015] exEngine \<and>
   snd (run [TimerFires 1700000005, CheckReturns 0 paidWorld, MintReturns 0 deafWorld,
             TimerFires 1700000010, CheckReturns 0 paidWorld, MintReturns 0 paidWorld,
             TimerFires 1700000015] exEngine)
     = [MintCall ''q1'', MintCall ''q1'', MintDone ''q1''] \<and>
   count_list
     (snd (run [TimerFires 1700000005, CheckReturns 0 paidWorld, MintReturns 0 deafWorld,
                TimerFires 1700000010, CheckReturns 0 paidWorld, MintReturns 0 paidWorld,
                TimerFires 1700000015] exEngine)) (MintDone ''q1'') \<le> 1"
proof -
  let ?evs = "[TimerFires 1700000005, CheckReturns 0 paidWorld, MintReturns 0 deafWorld,
               TimerFires 1700000010, CheckReturns 0 paidWorld, MintReturns 0 paidWorld,
               TimerFires 1700000015]"
  have t: "tasks exEngine = []" and d: "distinct (tracked exEngine)"
    by (simp_all add: engine_defs newQuotePoolManager_def Let_def)
  have a: "ticks_apart ?evs exEngine"
    by (simp add: engine_defs eval_defs)
  have r: "snd (run ?evs exEngine) = [MintCall ''q1'', MintCall ''q1'', MintDone ''q1'']"
    by (simp add: engine_defs eval_defs)
  from at_most_one_mint_when_ticks_apart [OF t d a, of "''q1''"] t d a r show ?thesis
    by (simp only: simp_thms)
qed

end
